theory Spec2Isabelle
  imports Complex_Main "HOL-Library.Word" "HOL-Library.Multiset"
begin

unbundle bit_operations_syntax

section \<open>Buffers, strings and errors\<close>

text \<open>
  A Node \<open>Buffer\<close> is a list of bytes. A JavaScript string is represented by its UTF-8
  encoding, one \<open>char\<close> per byte, so that string literals of the source read as they
  are written there. Only well-formed strings (no lone surrogates) have such a
  representation. The operations of the source that work on UTF-16 code units
  (\<open>split\<close>, \<open>indexOf\<close>, \<open>endsWith\<close>, \<open>substring\<close>) are only ever applied with the ASCII
  characters \<open>.\<close> and \<open>=\<close> as separators, so they act on the bytes in the same way;
  \<open>String.length\<close>, which counts code units and not bytes, is \<open>js_length\<close>.
\<close>

type_synonym byte = "8 word"
type_synonym buffer = "byte list"

text \<open>
  \<open>ERR_OUT_OF_RANGE\<close> is the RangeError of the Buffer accessors, \<open>TypeError\<close> that of
  calling what is not a function, \<open>ERR_SOCKET_DGRAM_NOT_RUNNING\<close> that of \<open>socket.close()\<close>
  on a socket that is closed already; \<open>Error p e\<close> is
  \<open>new Error(p + e.message)\<close>, the way every \<open>catch\<close> of the library rethrows.
\<close>

datatype js_error =
    ERR_OUT_OF_RANGE | TypeError | ERR_SOCKET_DGRAM_NOT_RUNNING | Error string js_error

definition Buffer_from :: "string \<Rightarrow> buffer" where
  "Buffer_from s = map of_char s"

definition string_of_bytes :: "buffer \<Rightarrow> string" where
  "string_of_bytes bs = map (\<lambda>b. char_of (unat b)) bs"

text \<open>\<open>s.length\<close>: one code unit per UTF-8 sequence, two for a four-byte sequence.\<close>

fun js_length :: "string \<Rightarrow> nat" where
  "js_length [] = 0"
| "js_length (c # cs) =
     (let b = (of_char c :: byte) in
      (if b AND 0xC0 = 0x80 then 0 else if 0xF0 \<le> b then 2 else 1) + js_length cs)"

definition readUInt8 :: "buffer \<Rightarrow> nat \<Rightarrow> js_error + nat" where
  "readUInt8 buffer offset =
     (if offset < length buffer then Inr (unat (buffer ! offset)) else Inl ERR_OUT_OF_RANGE)"

definition readUInt16BE :: "buffer \<Rightarrow> nat \<Rightarrow> js_error + nat" where
  "readUInt16BE buffer offset =
     (if offset + 2 \<le> length buffer
      then Inr (unat (buffer ! offset) * 256 + unat (buffer ! (offset + 1)))
      else Inl ERR_OUT_OF_RANGE)"

definition readUInt32BE :: "buffer \<Rightarrow> nat \<Rightarrow> js_error + nat" where
  "readUInt32BE buffer offset =
     (if offset + 4 \<le> length buffer
      then Inr (unat (buffer ! offset) * 16777216 + unat (buffer ! (offset + 1)) * 65536
                + unat (buffer ! (offset + 2)) * 256 + unat (buffer ! (offset + 3)))
      else Inl ERR_OUT_OF_RANGE)"

text \<open>\<open>writeUInt8\<close> on a fresh one-byte buffer: a value above 255 is a RangeError.\<close>

definition writeUInt8 :: "nat \<Rightarrow> js_error + buffer" where
  "writeUInt8 v = (if v \<le> 255 then Inr [of_nat v] else Inl ERR_OUT_OF_RANGE)"

definition writeUInt16BE :: "nat \<Rightarrow> buffer" where
  "writeUInt16BE v = [of_nat (v div 256), of_nat (v mod 256)]"

subsection \<open>Decoding UTF-8, as \<open>buffer.toString('utf8', start, end)\<close> does\<close>

text \<open>
  Ill-formed input does not throw: every maximal ill-formed subsequence becomes one
  U+FFFD, whose own encoding is \<open>EF BF BD\<close>, and decoding resumes at the offending byte.
\<close>

definition replacement :: buffer where
  "replacement = [0xEF, 0xBF, 0xBD]"

definition between :: "byte \<Rightarrow> byte \<Rightarrow> byte \<Rightarrow> bool" where
  "between lo hi b = (lo \<le> b \<and> b \<le> hi)"

fun utf8_decode :: "buffer \<Rightarrow> buffer" where
  "utf8_decode [] = []"
| "utf8_decode (b # bs) =
     (if b < 0x80 then b # utf8_decode bs
      else if between 0xC2 0xDF b then
        (case bs of
           [] \<Rightarrow> replacement
         | c1 # r1 \<Rightarrow>
             if between 0x80 0xBF c1 then b # c1 # utf8_decode r1
             else replacement @ utf8_decode bs)
      else if between 0xE0 0xEF b then
        (case bs of
           [] \<Rightarrow> replacement
         | c1 # r1 \<Rightarrow>
             if \<not> between (if b = 0xE0 then 0xA0 else 0x80) (if b = 0xED then 0x9F else 0xBF) c1
             then replacement @ utf8_decode bs
             else (case r1 of
                     [] \<Rightarrow> replacement
                   | c2 # r2 \<Rightarrow>
                       if between 0x80 0xBF c2 then b # c1 # c2 # utf8_decode r2
                       else replacement @ utf8_decode r1))
      else if between 0xF0 0xF4 b then
        (case bs of
           [] \<Rightarrow> replacement
         | c1 # r1 \<Rightarrow>
             if \<not> between (if b = 0xF0 then 0x90 else 0x80) (if b = 0xF4 then 0x8F else 0xBF) c1
             then replacement @ utf8_decode bs
             else (case r1 of
                     [] \<Rightarrow> replacement
                   | c2 # r2 \<Rightarrow>
                       if \<not> between 0x80 0xBF c2 then replacement @ utf8_decode r1
                       else (case r2 of
                               [] \<Rightarrow> replacement
                             | c3 # r3 \<Rightarrow>
                                 if between 0x80 0xBF c3 then b # c1 # c2 # c3 # utf8_decode r3
                                 else replacement @ utf8_decode r2)))
      else replacement @ utf8_decode bs)"

text \<open>\<open>start\<close> and \<open>end\<close> are clamped to the buffer, which \<open>take\<close> and \<open>drop\<close> do.\<close>

definition toString :: "buffer \<Rightarrow> nat \<Rightarrow> nat \<Rightarrow> string" where
  "toString buffer start end = string_of_bytes (utf8_decode (take (end - start) (drop start buffer)))"

subsection \<open>\<open>split('.')\<close> and \<open>join('.')\<close>\<close>

fun split :: "char \<Rightarrow> string \<Rightarrow> string list" where
  "split sep [] = [[]]"
| "split sep (c # cs) =
     (if c = sep then [] # split sep cs
      else (case split sep cs of [] \<Rightarrow> [[c]] | p # ps \<Rightarrow> (c # p) # ps))"

fun join :: "string \<Rightarrow> string list \<Rightarrow> string" where
  "join sep [] = []"
| "join sep [x] = x"
| "join sep (x # y # ys) = x @ sep @ join sep (y # ys)"

section \<open>The message codec\<close>

subsection \<open>\<open>read_name\<close>\<close>

record name_result =
  name :: string
  read_bytes :: nat

text \<open>
  The \<open>while (true)\<close> loop of \<open>read_name\<close>, with its four variables as arguments. Nothing
  bounds the number of pointers followed, so the loop is a partial function: \<open>None\<close> is
  "does not return", \<open>Some (Inl e)\<close> is a throw, \<open>Some (Inr r)\<close> a return.
\<close>

partial_function (option) read_name_loop ::
  "buffer \<Rightarrow> nat \<Rightarrow> string list \<Rightarrow> bool \<Rightarrow> nat \<Rightarrow> (js_error + name_result) option" where
  "read_name_loop buffer offset labels jumped original_offset =
     (case readUInt8 buffer offset of
        Inl e \<Rightarrow> Some (Inl e)
      | Inr len \<Rightarrow>
          if len = 0 then
            Some (Inr \<lparr>name = join ''.'' labels,
                       read_bytes = (if jumped then original_offset else offset + 1)\<rparr>)
          else if len AND 0xC0 = 0xC0 then
            (case readUInt8 buffer (offset + 1) of
               Inl e \<Rightarrow> Some (Inl e)
             | Inr lo \<Rightarrow>
                 read_name_loop buffer
                   (push_bit 8 (len AND 0x3F) OR lo)
                   labels True (if \<not> jumped then offset + 2 else original_offset))
          else
            read_name_loop buffer (offset + 1 + len)
              (labels @ [toString buffer (offset + 1) (offset + 1 + len)])
              jumped original_offset)"

declare read_name_loop.simps [code]

definition rethrow :: "string \<Rightarrow> (js_error + 'a) option \<Rightarrow> (js_error + 'a) option" where
  "rethrow prefix r =
     (case r of None \<Rightarrow> None | Some (Inl e) \<Rightarrow> Some (Inl (Error prefix e)) | Some (Inr v) \<Rightarrow> Some (Inr v))"

definition read_name :: "buffer \<Rightarrow> nat \<Rightarrow> (js_error + name_result) option" where
  "read_name buffer offset =
     rethrow ''Error reading name from buffer: '' (read_name_loop buffer offset [] False offset)"

subsection \<open>\<open>build_query\<close>\<close>

text \<open>
  The \<open>for\<close> loop over the parts of the name. The length byte is \<open>part.length\<close>, the number
  of UTF-16 code units of the part, while the bytes pushed after it are its UTF-8 encoding.
\<close>

fun qname_loop :: "string list \<Rightarrow> buffer list \<Rightarrow> js_error + buffer list" where
  "qname_loop [] qname_buffer_array = Inr qname_buffer_array"
| "qname_loop (part # parts) qname_buffer_array =
     (if part = [] then qname_loop parts qname_buffer_array
      else (case writeUInt8 (js_length part) of
              Inl e \<Rightarrow> Inl e
            | Inr len \<Rightarrow> qname_loop parts (qname_buffer_array @ [len, Buffer_from part])))"

definition header_bytes :: buffer where
  "header_bytes = writeUInt16BE 0 @ writeUInt16BE 0 @ writeUInt16BE 1
                  @ writeUInt16BE 0 @ writeUInt16BE 0 @ writeUInt16BE 0"

definition question_bytes :: buffer where
  "question_bytes = writeUInt16BE 12 @ writeUInt16BE 1"

definition build_query :: "string \<Rightarrow> js_error + buffer" where
  "build_query service_query =
     (let full_service_query = service_query @ ''.local'';
          qname_parts = split CHR ''.'' full_service_query
      in case qname_loop qname_parts [] of
           Inl e \<Rightarrow> Inl (Error ''Error building query: '' e)
         | Inr qname_buffer_array \<Rightarrow>
             Inr (header_bytes @ concat (qname_buffer_array @ [[0]]) @ question_bytes))"

subsection \<open>\<open>parse_record\<close>\<close>

datatype txt_value = TxtString string | TxtTrue

text \<open>The payload of a record: a name (PTR), the four SRV fields, the TXT object, the
  dotted address (A), or the raw bytes of any other type.\<close>

datatype rdata =
    RName string
  | RSrv (priority: nat) (weight: nat) (port: nat) (target: string)
  | RTxt "string \<rightharpoonup> txt_value"
  | RAddress string
  | RRaw buffer

record dns_record =
  rec_name :: string
  rec_type :: nat
  rec_cls :: nat
  rec_ttl :: nat
  rec_rdlength :: nat
  rec_rdata :: rdata
  rec_offset :: nat

text \<open>Sequencing of steps that may throw or, through \<open>read_name\<close>, not return.\<close>

definition and_then ::
  "(js_error + 'a) option \<Rightarrow> ('a \<Rightarrow> (js_error + 'b) option) \<Rightarrow> (js_error + 'b) option" where
  "and_then m f = (case m of None \<Rightarrow> None | Some (Inl e) \<Rightarrow> Some (Inl e) | Some (Inr v) \<Rightarrow> f v)"

fun indexOf :: "char \<Rightarrow> string \<Rightarrow> nat option" where
  "indexOf c [] = None"
| "indexOf c (x # xs) = (if x = c then Some 0 else map_option Suc (indexOf c xs))"

text \<open>
  \<open>txts[key] = value\<close> on an object literal. Assigning a string or \<open>true\<close> to the key
  \<open>__proto__\<close> is ignored by the prototype setter and creates no property.
\<close>

definition set_property ::
  "(string \<rightharpoonup> txt_value) \<Rightarrow> string \<Rightarrow> txt_value \<Rightarrow> (string \<rightharpoonup> txt_value)" where
  "set_property txts key v = (if key = ''__proto__'' then txts else txts(key \<mapsto> v))"

definition txt_entry :: "(string \<rightharpoonup> txt_value) \<Rightarrow> string \<Rightarrow> (string \<rightharpoonup> txt_value)" where
  "txt_entry txts txt =
     (case indexOf CHR ''='' txt of
        Some equal_index \<Rightarrow>
          set_property txts (take equal_index txt) (TxtString (drop (equal_index + 1) txt))
      | None \<Rightarrow> set_property txts txt TxtTrue)"

function txt_loop ::
  "buffer \<Rightarrow> nat \<Rightarrow> nat \<Rightarrow> (string \<rightharpoonup> txt_value) \<Rightarrow> js_error + (string \<rightharpoonup> txt_value) \<times> nat" where
  "txt_loop buffer offset end txts =
     (if offset < end then
        (case readUInt8 buffer offset of
           Inl e \<Rightarrow> Inl e
         | Inr txt_len \<Rightarrow>
             txt_loop buffer (offset + 1 + txt_len) end
               (txt_entry txts (toString buffer (offset + 1) (offset + 1 + txt_len))))
      else Inr (txts, offset))"
  by pat_completeness auto
termination
  by (relation "measure (\<lambda>(buffer, offset, end, txts). end - offset)") auto

function ip_loop :: "buffer \<Rightarrow> nat \<Rightarrow> nat \<Rightarrow> nat \<Rightarrow> nat list \<Rightarrow> js_error + nat list" where
  "ip_loop buffer offset rdlength i ip_bytes =
     (if i < rdlength then
        (case readUInt8 buffer (offset + i) of
           Inl e \<Rightarrow> Inl e
         | Inr b \<Rightarrow> ip_loop buffer offset rdlength (i + 1) (ip_bytes @ [b]))
      else Inr ip_bytes)"
  by pat_completeness auto
termination
  by (relation "measure (\<lambda>(buffer, offset, rdlength, i, ip_bytes). rdlength - i)") auto

text \<open>A number as \<open>join\<close> prints it: its decimal digits.\<close>

fun decimal :: "nat \<Rightarrow> string" where
  "decimal n = (if n < 10 then [char_of (48 + n)] else decimal (n div 10) @ [char_of (48 + n mod 10)])"

declare decimal.simps [simp del]

definition parse_record_body :: "buffer \<Rightarrow> nat \<Rightarrow> (js_error + dns_record) option" where
  "parse_record_body buffer offset0 =
     and_then (read_name buffer offset0) (\<lambda>name_result.
     and_then (Some (readUInt16BE buffer (read_bytes name_result))) (\<lambda>type.
     and_then (Some (readUInt16BE buffer (read_bytes name_result + 2))) (\<lambda>cls.
     and_then (Some (readUInt32BE buffer (read_bytes name_result + 4))) (\<lambda>ttl.
     and_then (Some (readUInt16BE buffer (read_bytes name_result + 8))) (\<lambda>rdlength.
     let offset = read_bytes name_result + 10;
         result = (\<lambda>rdata offset'.
           \<lparr>rec_name = name name_result, rec_type = type, rec_cls = cls, rec_ttl = ttl,
            rec_rdlength = rdlength, rec_rdata = rdata, rec_offset = offset'\<rparr>)
     in
       if type = 12 then
         and_then (read_name buffer offset) (\<lambda>r.
         Some (Inr (result (RName (name r)) (offset + rdlength))))
       else if type = 33 then
         and_then (Some (readUInt16BE buffer offset)) (\<lambda>priority.
         and_then (Some (readUInt16BE buffer (offset + 2))) (\<lambda>weight.
         and_then (Some (readUInt16BE buffer (offset + 4))) (\<lambda>port.
         and_then (read_name buffer (offset + 6)) (\<lambda>r.
         Some (Inr (result (RSrv priority weight port (name r)) (offset + rdlength)))))))
       else if type = 16 then
         and_then (Some (txt_loop buffer offset (offset + rdlength) Map.empty)) (\<lambda>(txts, offset').
         Some (Inr (result (RTxt txts) offset')))
       else if type = 1 then
         and_then (Some (ip_loop buffer offset rdlength 0 [])) (\<lambda>ip_bytes.
         Some (Inr (result (RAddress (join ''.'' (map decimal ip_bytes))) (offset + rdlength))))
       else
         Some (Inr (result (RRaw (take rdlength (drop offset buffer))) (offset + rdlength))))))))"

definition parse_record :: "buffer \<Rightarrow> nat \<Rightarrow> (js_error + dns_record) option" where
  "parse_record buffer offset = rethrow ''Error parsing record: '' (parse_record_body buffer offset)"

subsection \<open>\<open>parse_dns_message\<close>\<close>

record dns_header =
  hdr_id :: nat
  hdr_flags :: nat
  qdcount :: nat
  ancount :: nat
  nscount :: nat
  arcount :: nat

record dns_message =
  header :: dns_header
  records :: "dns_record list"

text \<open>The two counting \<open>for\<close> loops, by recursion on the number of iterations left.\<close>

fun skip_questions :: "buffer \<Rightarrow> nat \<Rightarrow> nat \<Rightarrow> (js_error + nat) option" where
  "skip_questions buffer offset 0 = Some (Inr offset)"
| "skip_questions buffer offset (Suc n) =
     and_then (read_name buffer offset) (\<lambda>res. skip_questions buffer (read_bytes res + 4) n)"

fun parse_records ::
  "buffer \<Rightarrow> nat \<Rightarrow> nat \<Rightarrow> dns_record list \<Rightarrow> (js_error + dns_record list) option" where
  "parse_records buffer offset 0 recs = Some (Inr recs)"
| "parse_records buffer offset (Suc n) recs =
     and_then (parse_record buffer offset) (\<lambda>record.
       parse_records buffer (rec_offset record) n (recs @ [record]))"

definition parse_dns_message_body :: "buffer \<Rightarrow> (js_error + dns_message) option" where
  "parse_dns_message_body buffer =
     and_then (Some (readUInt16BE buffer 0)) (\<lambda>id.
     and_then (Some (readUInt16BE buffer 2)) (\<lambda>flags.
     and_then (Some (readUInt16BE buffer 4)) (\<lambda>qd.
     and_then (Some (readUInt16BE buffer 6)) (\<lambda>an.
     and_then (Some (readUInt16BE buffer 8)) (\<lambda>ns.
     and_then (Some (readUInt16BE buffer 10)) (\<lambda>ar.
     and_then (skip_questions buffer 12 qd) (\<lambda>offset.
     and_then (parse_records buffer offset (an + ns + ar) []) (\<lambda>recs.
     Some (Inr \<lparr>header = \<lparr>hdr_id = id, hdr_flags = flags, qdcount = qd, ancount = an,
                            nscount = ns, arcount = ar\<rparr>,
                 records = recs\<rparr>)))))))))"

definition parse_dns_message :: "buffer \<Rightarrow> (js_error + dns_message) option" where
  "parse_dns_message buffer =
     rethrow ''Error parsing DNS message: '' (parse_dns_message_body buffer)"

section \<open>The correlator of \<open>start_mdns_listener\<close>\<close>

definition endsWith :: "string \<Rightarrow> string \<Rightarrow> bool" where
  "endsWith s suffix = (length suffix \<le> length s \<and> drop (length s - length suffix) s = suffix)"

definition is_smart_ip_service :: "string \<Rightarrow> string \<Rightarrow> bool" where
  "is_smart_ip_service nm full_service_query =
     (nm = full_service_query \<or> endsWith nm (''.'' @ full_service_query))"

text \<open>
  One entry of the \<open>services\<close> object. A field that was never assigned is \<open>None\<close>.
  The object itself is the list of its own properties in insertion order, which is the
  order of \<open>for ... in\<close> for all keys that are not array indices; an entry that is
  reported has a key ending in \<open>.local\<close>.
\<close>

record service_entry =
  svc_name :: string
  svc_port :: "nat option"
  svc_target :: "string option"
  svc_txt :: "(string \<rightharpoonup> txt_value) option"
  svc_addresses :: "string list option"

type_synonym services = "(string \<times> service_entry) list"

text \<open>
  \<open>services[key]\<close> is truthy for an own property and also for the properties that every
  object inherits from \<open>Object.prototype\<close>.
\<close>

definition object_prototype_keys :: "string list" where
  "object_prototype_keys =
     [''constructor'', ''__defineGetter__'', ''__defineSetter__'', ''hasOwnProperty'',
      ''__lookupGetter__'', ''__lookupSetter__'', ''isPrototypeOf'', ''propertyIsEnumerable'',
      ''toString'', ''valueOf'', ''__proto__'', ''toLocaleString'']"

definition truthy_at :: "services \<Rightarrow> string \<Rightarrow> bool" where
  "truthy_at services key = (map_of services key \<noteq> None \<or> key \<in> set object_prototype_keys)"

text \<open>\<open>if (!services[key]) services[key] = { name: key }\<close>\<close>

definition new_entry :: "string \<Rightarrow> service_entry" where
  "new_entry key =
     \<lparr>svc_name = key, svc_port = None, svc_target = None, svc_txt = None, svc_addresses = None\<rparr>"

definition ensure :: "services \<Rightarrow> string \<Rightarrow> services" where
  "ensure services key =
     (if truthy_at services key then services else services @ [(key, new_entry key)])"

text \<open>Assignment to fields of \<open>services[key]\<close>, for an own property \<open>key\<close>.\<close>

definition modify :: "services \<Rightarrow> string \<Rightarrow> (service_entry \<Rightarrow> service_entry) \<Rightarrow> services" where
  "modify services key f = map (\<lambda>(k, e). if k = key then (k, f e) else (k, e)) services"

definition push_address :: "string \<Rightarrow> string \<Rightarrow> string \<times> service_entry \<Rightarrow> string \<times> service_entry" where
  "push_address owner ip = (\<lambda>(instance, e).
     if svc_target e = Some owner
     then (instance, e\<lparr>svc_addresses :=
             Some ((case svc_addresses e of None \<Rightarrow> [] | Some a \<Rightarrow> a) @ [ip])\<rparr>)
     else (instance, e))"

text \<open>
  The body of the loop over \<open>parsed.records\<close>. \<open>parse_record\<close> pairs every type with its
  own kind of payload (\<open>parse_dns_message_well_shaped\<close> below); a record of another
  shape, which the loop never meets, leaves the object as it is.
\<close>

definition process_record :: "string \<Rightarrow> services \<Rightarrow> dns_record \<Rightarrow> services" where
  "process_record full_service_query services rec =
     (if rec_type rec = 12 \<and> rec_name rec = full_service_query then
        (case rec_rdata rec of
           RName service_instance \<Rightarrow> ensure services service_instance
         | _ \<Rightarrow> services)
      else if rec_type rec = 33 \<and> is_smart_ip_service (rec_name rec) full_service_query then
        (case rec_rdata rec of
           RSrv pr w p t \<Rightarrow>
             modify (ensure services (rec_name rec)) (rec_name rec)
               (\<lambda>e. e\<lparr>svc_port := Some p, svc_target := Some t\<rparr>)
         | _ \<Rightarrow> services)
      else if rec_type rec = 16 \<and> is_smart_ip_service (rec_name rec) full_service_query then
        (case rec_rdata rec of
           RTxt txts \<Rightarrow>
             modify (ensure services (rec_name rec)) (rec_name rec) (\<lambda>e. e\<lparr>svc_txt := Some txts\<rparr>)
         | _ \<Rightarrow> services)
      else if rec_type rec = 1 then
        (case rec_rdata rec of
           RAddress ip \<Rightarrow> map (push_address (rec_name rec) ip) services
         | _ \<Rightarrow> services)
      else services)"

definition process_records :: "string \<Rightarrow> services \<Rightarrow> dns_record list \<Rightarrow> services" where
  "process_records full_service_query services recs =
     foldl (process_record full_service_query) services recs"

subsection \<open>Reporting\<close>

text \<open>
  The object handed to \<open>on_service_found\<close>. Its \<open>addresses\<close> is either the very array
  of the entry it is built from, which later \<open>push\<close>es on that entry change too, or a
  new empty array when the entry has none. An entry's array is assigned once and entries
  are never removed, so the array is identified by the key of its entry.
\<close>

datatype addresses_ref = ArrayOf string | NewArray

record found_service =
  found_name :: string
  found_addresses :: addresses_ref
  found_port :: "nat option"
  found_properties :: "string \<rightharpoonup> txt_value"

definition display_name :: "string \<Rightarrow> string \<Rightarrow> string" where
  "display_name nm full_service_query =
     (let suffix = ''.'' @ full_service_query
      in if endsWith nm suffix then take (length nm - length suffix) nm else nm)"

definition found_services :: "string \<Rightarrow> services \<Rightarrow> found_service list" where
  "found_services full_service_query services =
     map (\<lambda>(instance, e).
           \<lparr>found_name = display_name (svc_name e) full_service_query,
            found_addresses = (case svc_addresses e of None \<Rightarrow> NewArray | Some a \<Rightarrow> ArrayOf instance),
            found_port = svc_port e,
            found_properties = (case svc_txt e of None \<Rightarrow> Map.empty | Some txts \<Rightarrow> txts)\<rparr>)
         (filter (\<lambda>(instance, e). is_smart_ip_service (svc_name e) full_service_query) services)"

text \<open>A reported object as a reader sees it: the array behind \<open>addresses\<close> read out.\<close>

record device =
  dev_name :: string
  dev_addresses :: "string list"
  dev_port :: "nat option"
  dev_properties :: "string \<rightharpoonup> txt_value"

definition array_contents :: "services \<Rightarrow> addresses_ref \<Rightarrow> string list" where
  "array_contents services r =
     (case r of
        NewArray \<Rightarrow> []
      | ArrayOf key \<Rightarrow>
          (case map_of services key of
             None \<Rightarrow> []
           | Some e \<Rightarrow> (case svc_addresses e of None \<Rightarrow> [] | Some a \<Rightarrow> a)))"

definition read_out :: "services \<Rightarrow> found_service \<Rightarrow> device" where
  "read_out services s =
     \<lparr>dev_name = found_name s, dev_addresses = array_contents services (found_addresses s),
      dev_port = found_port s, dev_properties = found_properties s\<rparr>"

text \<open>What the correlator reports after a sequence of records, starting from \<open>{}\<close>.\<close>

definition reported :: "string \<Rightarrow> dns_record list \<Rightarrow> device list" where
  "reported full_service_query recs =
     (let services = process_records full_service_query [] recs
      in map (read_out services) (found_services full_service_query services))"

section \<open>The search session\<close>

text \<open>
  The state that the message handler and the deadline share: the \<open>services\<close> object of
  the listener and the \<open>unique_services\<close> Map of the search, in insertion order.
\<close>

record session =
  services :: services
  unique_services :: "(string \<times> found_service) list"

text \<open>The wrapper that both search functions install as \<open>options.on_service_found\<close>.\<close>

definition on_service_found :: "(string \<times> found_service) list \<Rightarrow> found_service \<Rightarrow> (string \<times> found_service) list" where
  "on_service_found unique service =
     (if map_of unique (found_name service) = None
      then unique @ [(found_name service, service)]
      else unique)"

text \<open>
  The \<open>'message'\<close> handler. A datagram that \<open>parse_dns_message\<close> throws on is logged in
  the \<open>catch\<close> and the handler returns; \<open>None\<close> is a handler that never returns. The
  caller's own callbacks are taken to return normally.
\<close>

definition on_message :: "string \<Rightarrow> session \<Rightarrow> buffer \<Rightarrow> session option" where
  "on_message full_service_query st msg =
     (case parse_dns_message msg of
        None \<Rightarrow> None
      | Some (Inl e) \<Rightarrow> Some st
      | Some (Inr parsed) \<Rightarrow>
          (let services' = process_records full_service_query (services st) (records parsed)
           in Some \<lparr>services = services',
                    unique_services =
                      foldl on_service_found (unique_services st)
                        (found_services full_service_query services')\<rparr>))"

fun on_messages :: "string \<Rightarrow> session \<Rightarrow> buffer list \<Rightarrow> session option" where
  "on_messages full_service_query st [] = Some st"
| "on_messages full_service_query st (msg # msgs) =
     (case on_message full_service_query st msg of
        None \<Rightarrow> None
      | Some st' \<Rightarrow> on_messages full_service_query st' msgs)"

definition initial_session :: session where
  "initial_session = \<lparr>services = [], unique_services = []\<rparr>"

text \<open>\<open>Array.from(unique_services.values())\<close>, as the receiver of the result reads it.\<close>

definition uniqueServiceArray :: "session \<Rightarrow> device list" where
  "uniqueServiceArray st = map (\<lambda>(nm, s). read_out (services st) s) (unique_services st)"

subsection \<open>Options\<close>

text \<open>
  The values a caller can put in \<open>options.timeout\<close> and \<open>options.on_search_complete\<close>,
  with what \<open>||\<close>, \<open>typeof\<close> and \<open>> 0\<close> make of them.
\<close>

datatype js_value =
    JUndefined | JNull | JBoolean bool
  | JNumber real | JNaN | JInfinity | JNegInfinity
  | JString string | JFunction | JObject

fun truthy :: "js_value \<Rightarrow> bool" where
  "truthy JUndefined = False"
| "truthy JNull = False"
| "truthy (JBoolean b) = b"
| "truthy (JNumber x) = (x \<noteq> 0)"
| "truthy JNaN = False"
| "truthy JInfinity = True"
| "truthy JNegInfinity = True"
| "truthy (JString s) = (s \<noteq> [])"
| "truthy JFunction = True"
| "truthy JObject = True"

definition js_or :: "js_value \<Rightarrow> js_value \<Rightarrow> js_value" where
  "js_or a b = (if truthy a then a else b)"

fun positive_number :: "js_value \<Rightarrow> bool" where
  "positive_number (JNumber x) = (0 < x)"
| "positive_number JInfinity = True"
| "positive_number v = False"

text \<open>
  The string and port options have the types of their documentation; \<open>None\<close> is an option
  left out. The empty string and the port 0 are falsy, so \<open>||\<close> replaces them too.
\<close>

record options =
  opt_mdns_address :: "string option"
  opt_mdns_port :: "nat option"
  opt_interface :: "string option"
  opt_service_query :: "string option"
  opt_timeout :: js_value
  opt_on_search_complete :: js_value

definition string_or :: "string option \<Rightarrow> string \<Rightarrow> string" where
  "string_or v d = (case v of None \<Rightarrow> d | Some s \<Rightarrow> if s = [] then d else s)"

definition number_or :: "nat option \<Rightarrow> nat \<Rightarrow> nat" where
  "number_or v d = (case v of None \<Rightarrow> d | Some n \<Rightarrow> if n = 0 then d else n)"

text \<open>What the library does to the outside, in the order in which it does it.\<close>

datatype effect =
    CreateSocket
  | Bind nat string
  | SetTimeout js_value
  | CloseSocket
  | OnSearchComplete "device list"
  | Resolve "device list"
  | ConsoleLog
  | ConsoleError
  | Uncaught js_error

record listener =
  mdns_address :: string
  mdns_port :: nat
  local_interface :: string
  service_query :: string
  full_service_query :: string

definition listener_of :: "options \<Rightarrow> listener" where
  "listener_of opts =
     \<lparr>mdns_address = string_or (opt_mdns_address opts) ''224.0.0.251'',
      mdns_port = number_or (opt_mdns_port opts) 5353,
      local_interface = string_or (opt_interface opts) ''169.254.137.22'',
      service_query = string_or (opt_service_query opts) ''_smart_ip._tcp'',
      full_service_query = string_or (opt_service_query opts) ''_smart_ip._tcp'' @ ''.local''\<rparr>"

text \<open>The synchronous part of \<open>start_mdns_listener\<close>: the socket is created and bound.\<close>

definition start_mdns_listener :: "options \<Rightarrow> effect list" where
  "start_mdns_listener opts =
     [CreateSocket, Bind (mdns_port (listener_of opts)) (local_interface (listener_of opts))]"

definition search_mdns_services :: "options \<Rightarrow> effect list" where
  "search_mdns_services opts =
     (let timeout = js_or (opt_timeout opts) (JNumber 5000)
      in start_mdns_listener opts @ [SetTimeout timeout])"

definition search_mdns_servicesmv1 :: "options \<Rightarrow> effect list" where
  "search_mdns_servicesmv1 opts =
     (let timeout = (if positive_number (opt_timeout opts) then opt_timeout opts else JNumber 5000)
      in [ConsoleLog] @ start_mdns_listener opts @ [SetTimeout timeout])"

text \<open>
  The socket of a session is running from its creation until \<open>socket.close()\<close>; a second
  \<open>close\<close> throws.
\<close>

datatype socket_state = Running | NotRunning

definition socket_close :: "socket_state \<Rightarrow> js_error + socket_state" where
  "socket_close sock =
     (case sock of Running \<Rightarrow> Inr NotRunning | NotRunning \<Rightarrow> Inl ERR_SOCKET_DGRAM_NOT_RUNNING)"

text \<open>
  The \<open>'error'\<close> handler of the listener, which a failed \<open>bind\<close> reaches: it logs the
  error and closes the socket.
\<close>

definition on_socket_error :: "socket_state \<Rightarrow> socket_state \<times> effect list" where
  "on_socket_error sock =
     (case socket_close sock of
        Inl e \<Rightarrow> (sock, [ConsoleError, Uncaught e])
      | Inr sock' \<Rightarrow> (sock', [ConsoleError, CloseSocket]))"

text \<open>
  The timer callbacks of the two search functions, run on the socket and the session as
  they are then. Each starts with \<open>socket.close()\<close>; when that throws, nothing after it
  runs.
\<close>

definition search_mdns_services_deadline ::
  "options \<Rightarrow> socket_state \<Rightarrow> session \<Rightarrow> effect list" where
  "search_mdns_services_deadline opts sock st =
     (case socket_close sock of
        Inl e \<Rightarrow> [Uncaught e]
      | Inr sock' \<Rightarrow>
          CloseSocket #
          (if truthy (opt_on_search_complete opts) then
             (if opt_on_search_complete opts = JFunction
              then [OnSearchComplete (uniqueServiceArray st)]
              else [Uncaught TypeError])
           else [ConsoleLog]))"

definition search_mdns_servicesmv1_deadline ::
  "options \<Rightarrow> socket_state \<Rightarrow> session \<Rightarrow> effect list" where
  "search_mdns_servicesmv1_deadline opts sock st =
     (case socket_close sock of
        Inl e \<Rightarrow> [Uncaught e]
      | Inr sock' \<Rightarrow>
          CloseSocket #
          (if opt_on_search_complete opts = JFunction
           then [OnSearchComplete (uniqueServiceArray st)]
           else [])
          @ [ConsoleLog, Resolve (uniqueServiceArray st)])"

section \<open>Inputs and predicates of the statements\<close>

text \<open>A name that starts with a compression pointer to its own offset.\<close>

definition self_pointer :: "buffer \<Rightarrow> nat \<Rightarrow> bool" where
  "self_pointer buffer offset =
     (case readUInt8 buffer offset of
        Inl e \<Rightarrow> False
      | Inr len \<Rightarrow>
          len AND 0xC0 = 0xC0 \<and>
          (case readUInt8 buffer (offset + 1) of
             Inl e \<Rightarrow> False
           | Inr lo \<Rightarrow> push_bit 8 (len AND 0x3F) OR lo = offset))"

definition relocated :: "nat \<Rightarrow> js_error + name_result \<Rightarrow> js_error + name_result" where
  "relocated g r = (case r of Inl e \<Rightarrow> Inl e | Inr v \<Rightarrow> Inr (v\<lparr>read_bytes := g\<rparr>))"

text \<open>
  A response with one answer whose owner name, at offset 12, is the pointer \<open>C0 0C\<close>, that
  is, a pointer to offset 12.
\<close>

definition circular_datagram :: buffer where
  "circular_datagram =
     [0, 0, 0x84, 0, 0, 0, 0, 1, 0, 0, 0, 0] @ [0xC0, 0x0C]
     @ [0, 1, 0, 1, 0, 0, 0, 120, 0, 4, 192, 168, 1, 50]"

text \<open>A response that announces one answer and ends in the middle of its owner name.\<close>

definition truncated_datagram :: buffer where
  "truncated_datagram = [0, 0, 0x84, 0, 0, 0, 0, 1, 0, 0, 0, 0, 4, 0x68, 0x6F]"

text \<open>
  A response with the PTR record of \<open>device-1\<close>, whose payload ends in a pointer to the
  owner name at offset 12, and a second response with the SRV record of the same instance
  (port 8080, target \<open>host.local\<close>).
\<close>

definition ptr_datagram :: buffer where
  "ptr_datagram =
     [0, 0, 0x84, 0, 0, 0, 0, 1, 0, 0, 0, 0]
     @ [9] @ Buffer_from ''_smart_ip'' @ [4] @ Buffer_from ''_tcp'' @ [5] @ Buffer_from ''local'' @ [0]
     @ [0, 12, 0, 1, 0, 0, 0, 120, 0, 11]
     @ [8] @ Buffer_from ''device-1'' @ [0xC0, 12]"

definition srv_datagram :: buffer where
  "srv_datagram =
     [0, 0, 0x84, 0, 0, 0, 0, 1, 0, 0, 0, 0]
     @ [8] @ Buffer_from ''device-1'' @ [9] @ Buffer_from ''_smart_ip'' @ [4] @ Buffer_from ''_tcp''
     @ [5] @ Buffer_from ''local'' @ [0]
     @ [0, 33, 0, 1, 0, 0, 0, 120, 0, 18]
     @ [0, 0, 0, 0, 0x1F, 0x90] @ [4] @ Buffer_from ''host'' @ [5] @ Buffer_from ''local'' @ [0]"

text \<open>A record whose payload is of the kind that \<open>parse_record\<close> builds for its type.\<close>

definition well_shaped :: "dns_record \<Rightarrow> bool" where
  "well_shaped r =
     (case rec_rdata r of
        RName n \<Rightarrow> rec_type r = 12
      | RSrv pr w p t \<Rightarrow> rec_type r = 33
      | RTxt txts \<Rightarrow> rec_type r = 16
      | RAddress ip \<Rightarrow> rec_type r = 1
      | RRaw bs \<Rightarrow> rec_type r \<notin> {12, 33, 16, 1})"

text \<open>The four records of one instance, as the record loop tells them apart.\<close>

definition is_ptr :: "string \<Rightarrow> string \<Rightarrow> dns_record \<Rightarrow> bool" where
  "is_ptr fsq inst r = (rec_type r = 12 \<and> rec_name r = fsq \<and> rec_rdata r = RName inst)"

definition is_srv :: "string \<Rightarrow> nat \<Rightarrow> string \<Rightarrow> dns_record \<Rightarrow> bool" where
  "is_srv inst p tgt r =
     (rec_type r = 33 \<and> rec_name r = inst
      \<and> (case rec_rdata r of RSrv pr w p' t' \<Rightarrow> p' = p \<and> t' = tgt | _ \<Rightarrow> False))"

definition is_txt :: "string \<Rightarrow> (string \<rightharpoonup> txt_value) \<Rightarrow> dns_record \<Rightarrow> bool" where
  "is_txt inst props r = (rec_type r = 16 \<and> rec_name r = inst \<and> rec_rdata r = RTxt props)"

definition is_a :: "string \<Rightarrow> string \<Rightarrow> dns_record \<Rightarrow> bool" where
  "is_a tgt ip r = (rec_type r = 1 \<and> rec_name r = tgt \<and> rec_rdata r = RAddress ip)"

text \<open>\<open>x\<close> arrives before the first \<open>y\<close>.\<close>

definition precedes :: "'a \<Rightarrow> 'a \<Rightarrow> 'a list \<Rightarrow> bool" where
  "precedes x y xs = (x \<in> set (takeWhile (\<lambda>z. z \<noteq> y) xs))"

text \<open>\<open>options = {}\<close>\<close>

definition no_options :: options where
  "no_options =
     \<lparr>opt_mdns_address = None, opt_mdns_port = None, opt_interface = None,
      opt_service_query = None, opt_timeout = JUndefined, opt_on_search_complete = JUndefined\<rparr>"

text \<open>The two ways in which a result reaches the caller.\<close>

fun by_promise :: "effect \<Rightarrow> bool" where
  "by_promise (Resolve ds) = True"
| "by_promise e = False"

fun by_callback :: "effect \<Rightarrow> bool" where
  "by_callback (OnSearchComplete ds) = True"
| "by_callback e = False"

text \<open>
  The records of \<open>ptr_datagram\<close> and \<open>srv_datagram\<close>, with a TXT record of the same
  instance and the A record of its target.
\<close>

definition ptr_record :: dns_record where
  "ptr_record =
     \<lparr>rec_name = ''_smart_ip._tcp.local'', rec_type = 12, rec_cls = 1, rec_ttl = 120,
      rec_rdlength = 11, rec_rdata = RName ''device-1._smart_ip._tcp.local'', rec_offset = 55\<rparr>"

definition srv_record :: dns_record where
  "srv_record =
     \<lparr>rec_name = ''device-1._smart_ip._tcp.local'', rec_type = 33, rec_cls = 1, rec_ttl = 120,
      rec_rdlength = 18, rec_rdata = RSrv 0 0 8080 ''host.local'', rec_offset = 71\<rparr>"

definition txt_record :: dns_record where
  "txt_record =
     \<lparr>rec_name = ''device-1._smart_ip._tcp.local'', rec_type = 16, rec_cls = 1, rec_ttl = 120,
      rec_rdlength = 4, rec_rdata = RTxt [''v'' \<mapsto> TxtString ''1''], rec_offset = 57\<rparr>"

definition a_record :: dns_record where
  "a_record =
     \<lparr>rec_name = ''host.local'', rec_type = 1, rec_cls = 1, rec_ttl = 120,
      rec_rdlength = 4, rec_rdata = RAddress ''192.168.1.50'', rec_offset = 38\<rparr>"

text \<open>A third response, with the A record of \<open>host.local\<close>.\<close>

definition a_datagram :: buffer where
  "a_datagram =
     [0, 0, 0x84, 0, 0, 0, 0, 1, 0, 0, 0, 0]
     @ [4] @ Buffer_from ''host'' @ [5] @ Buffer_from ''local'' @ [0]
     @ [0, 1, 0, 1, 0, 0, 0, 120, 0, 4, 192, 168, 1, 50]"

text \<open>
  The object reported for \<open>device-1\<close> after \<open>ptr_datagram\<close>, and the session after
  \<open>ptr_datagram\<close> and after all three responses.
\<close>

definition first_report :: found_service where
  "first_report =
     \<lparr>found_name = ''device-1'', found_addresses = NewArray, found_port = None,
      found_properties = Map.empty\<rparr>"

definition session_after_ptr :: session where
  "session_after_ptr =
     \<lparr>services = [(''device-1._smart_ip._tcp.local'', new_entry ''device-1._smart_ip._tcp.local'')],
      unique_services = [(''device-1'', first_report)]\<rparr>"

definition session_at_deadline :: session where
  "session_at_deadline =
     \<lparr>services =
        [(''device-1._smart_ip._tcp.local'',
          \<lparr>svc_name = ''device-1._smart_ip._tcp.local'', svc_port = Some 8080,
           svc_target = Some ''host.local'', svc_txt = None,
           svc_addresses = Some [''192.168.1.50'']\<rparr>)],
      unique_services = [(''device-1'', first_report)]\<rparr>"

text \<open>The Map holds every object under its own name, once.\<close>

definition keyed_by_name :: "(string \<times> found_service) list \<Rightarrow> bool" where
  "keyed_by_name unique = (distinct (map fst unique) \<and> (\<forall>(k, s) \<in> set unique. k = found_name s))"

text \<open>
  Service names: a label of 64 bytes, a label of 256 bytes, and the one letter U+00E9,
  which is one UTF-16 code unit and two bytes of UTF-8, with the query built from it.
\<close>

definition long_label :: string where
  "long_label = replicate 64 CHR ''a''"

definition huge_label :: string where
  "huge_label = replicate 256 CHR ''a''"

definition e_acute :: string where
  "e_acute = [CHR 0xC3, CHR 0xA9]"

definition e_acute_query :: buffer where
  "e_acute_query =
     header_bytes @ [1, 0xC3, 0xA9] @ [5] @ Buffer_from ''local'' @ [0] @ question_bytes"

text \<open>The labels that the loop of \<open>build_query\<close> writes, and what it writes for one.\<close>

definition nonempty_parts :: "string \<Rightarrow> string list" where
  "nonempty_parts full = filter (\<lambda>part. part \<noteq> []) (split CHR ''.'' full)"

definition encode_label :: "string \<Rightarrow> buffer" where
  "encode_label part = of_nat (js_length part) # Buffer_from part"

definition ascii :: "string \<Rightarrow> bool" where
  "ascii s = (\<forall>c \<in> set s. (of_char c :: nat) < 0x80)"

text \<open>The names of the entries of the \<open>services\<close> object.\<close>

definition entry_names :: "services \<Rightarrow> string set" where
  "entry_names S = (\<lambda>(k, e). svc_name e) ` set S"

text \<open>The Map holds exactly the names that the correlator reports.\<close>

definition names_stored :: "string \<Rightarrow> session \<Rightarrow> bool" where
  "names_stored fsq st =
     (fst ` set (unique_services st) = found_name ` set (found_services fsq (services st)))"

section \<open>Evaluation of the codec on concrete buffers\<close>

lemma parse_records_unfold:
  "parse_records buffer offset n recs =
     (if n = 0 then Some (Inr recs)
      else and_then (parse_record buffer offset) (\<lambda>record.
             parse_records buffer (rec_offset record) (n - 1) (recs @ [record])))"
  by (cases n) simp_all

lemma skip_questions_unfold:
  "skip_questions buffer offset n =
     (if n = 0 then Some (Inr offset)
      else and_then (read_name buffer offset) (\<lambda>res.
             skip_questions buffer (read_bytes res + 4) (n - 1)))"
  by (cases n) simp_all

lemmas codec_eval =
  parse_dns_message_def parse_dns_message_body_def and_then_def readUInt8_def readUInt16BE_def
  readUInt32BE_def parse_record_def parse_record_body_def read_name_def read_name_loop.simps
  rethrow_def toString_def string_of_bytes_def parse_records_unfold skip_questions_unfold
  Buffer_from_def between_def txt_loop.simps ip_loop.simps decimal.simps char_of_def
  bit_Suc_0_iff

lemma ptr_datagram_parsed:
  "parse_dns_message ptr_datagram =
     Some (Inr \<lparr>header = \<lparr>hdr_id = 0, hdr_flags = 33792, qdcount = 0, ancount = 1,
                           nscount = 0, arcount = 0\<rparr>,
                records =
                  [\<lparr>rec_name = ''_smart_ip._tcp.local'', rec_type = 12, rec_cls = 1,
                    rec_ttl = 120, rec_rdlength = 11,
                    rec_rdata = RName ''device-1._smart_ip._tcp.local'', rec_offset = 55\<rparr>]\<rparr>)"
  by (simp add: ptr_datagram_def codec_eval)

lemma srv_datagram_parsed:
  "parse_dns_message srv_datagram =
     Some (Inr \<lparr>header = \<lparr>hdr_id = 0, hdr_flags = 33792, qdcount = 0, ancount = 1,
                           nscount = 0, arcount = 0\<rparr>,
                records =
                  [\<lparr>rec_name = ''device-1._smart_ip._tcp.local'', rec_type = 33, rec_cls = 1,
                    rec_ttl = 120, rec_rdlength = 18,
                    rec_rdata = RSrv 0 0 8080 ''host.local'', rec_offset = 71\<rparr>]\<rparr>)"
  by (simp add: srv_datagram_def codec_eval)

lemma truncated_datagram_parsed:
  "parse_dns_message truncated_datagram =
     Some (Inl (Error ''Error parsing DNS message: ''
                 (Error ''Error parsing record: ''
                   (Error ''Error reading name from buffer: '' ERR_OUT_OF_RANGE))))"
  by (simp add: truncated_datagram_def codec_eval)

section \<open>The shape of parsed records\<close>

text \<open>Every record of a parsed message has the payload of its type, so the record loop of the
  correlator never meets a record of another shape.\<close>

lemma and_then_InrE:
  assumes "and_then m f = Some (Inr y)"
  obtains x where "m = Some (Inr x)" "f x = Some (Inr y)"
  using assms by (auto simp: and_then_def split: option.splits sum.splits)

lemma rethrow_Inr: "rethrow prefix r = Some (Inr v) \<longleftrightarrow> r = Some (Inr v)"
  by (auto simp: rethrow_def split: option.splits sum.splits)

lemma parse_record_well_shaped:
  assumes "parse_record buffer offset = Some (Inr r)"
  shows "well_shaped r"
proof -
  from assms have "parse_record_body buffer offset = Some (Inr r)"
    by (simp add: parse_record_def rethrow_Inr)
  then show ?thesis
    unfolding parse_record_body_def
    apply (elim and_then_InrE)
    apply (simp only: Let_def split: if_splits)
        apply (elim and_then_InrE; auto simp: well_shaped_def)
       apply (elim and_then_InrE; auto simp: well_shaped_def)
      apply (elim and_then_InrE; auto simp: well_shaped_def split: prod.splits)
     apply (elim and_then_InrE; auto simp: well_shaped_def)
    apply (auto simp: well_shaped_def)
    done
qed


lemma parse_records_well_shaped:
  assumes "parse_records buffer offset n recs = Some (Inr rs)" and "\<forall>r \<in> set recs. well_shaped r"
  shows "\<forall>r \<in> set rs. well_shaped r"
  using assms
proof (induction n arbitrary: offset recs)
  case 0
  then show ?case by simp
next
  case (Suc n)
  from Suc.prems(1)
  have "and_then (parse_record buffer offset)
          (\<lambda>record. parse_records buffer (rec_offset record) n (recs @ [record])) = Some (Inr rs)"
    by simp
  then obtain r where r: "parse_record buffer offset = Some (Inr r)"
      "parse_records buffer (rec_offset r) n (recs @ [r]) = Some (Inr rs)"
    by (rule and_then_InrE)
  from parse_record_well_shaped[OF r(1)] Suc.prems(2) have "\<forall>x \<in> set (recs @ [r]). well_shaped x"
    by simp
  from Suc.IH[OF r(2) this] show ?case .
qed

lemma parse_dns_message_well_shaped:
  assumes "parse_dns_message buffer = Some (Inr m)"
  shows "\<forall>r \<in> set (records m). well_shaped r"
proof -
  from assms have "parse_dns_message_body buffer = Some (Inr m)"
    by (simp add: parse_dns_message_def rethrow_Inr)
  then show ?thesis
    unfolding parse_dns_message_body_def
  proof (elim and_then_InrE, goal_cases)
    case (1 id flags qd an ns ar off recs)
    from 1(9) have "records m = recs" by auto
    moreover from parse_records_well_shaped[OF 1(8)] have "\<forall>r \<in> set recs. well_shaped r" by simp
    ultimately show ?case by simp
  qed
qed

section \<open>Name decoding\<close>

subsection \<open>A pointer to itself\<close>

lemma and_192_nonzero: "len AND 0xC0 = 0xC0 \<Longrightarrow> len \<noteq> (0::nat)"
  by (cases "len = 0") simp_all

lemma self_pointer_no_result:
  assumes "read_name_loop buffer offset labels jumped orig = Some y"
  shows "\<not> self_pointer buffer offset"
  using assms
proof (rule read_name_loop.raw_induct[rotated 1,
         where P = "\<lambda>b off ls j g y. \<not> self_pointer b off"], goal_cases)
  case (1 f b off ls j g y)
  show ?case
  proof
    assume sp: "self_pointer b off"
    then obtain len lo where r: "readUInt8 b off = Inr len" "len AND 0xC0 = 0xC0"
        "readUInt8 b (off + 1) = Inr lo" "push_bit 8 (len AND 0x3F) OR lo = off"
      by (auto simp: self_pointer_def split: sum.splits)
    from r(2) have "len \<noteq> 0" by (rule and_192_nonzero)
    with 1(2) r have "f b off ls True (if \<not> j then off + 2 else g) = Some y"
      by simp
    with 1(1) sp show False by blast
  qed
qed

lemma self_pointer_diverges: "self_pointer buffer offset \<Longrightarrow> read_name buffer offset = None"
  using self_pointer_no_result[of buffer offset "[]" False offset]
  by (cases "read_name_loop buffer offset [] False offset") (auto simp: read_name_def rethrow_def)

lemma circular_datagram_self_pointer: "self_pointer circular_datagram 12"
  by (simp add: self_pointer_def circular_datagram_def readUInt8_def)

text \<open>
  C3. The claim is that \<open>read_name\<close> follows at most one pointer and so returns, with a
  decode error, on a circular pointer chain. The loop follows every pointer it meets: on
  the response \<open>circular_datagram\<close>, whose answer name is a pointer to itself, \<open>read_name\<close>
  does not return, and neither do \<open>parse_dns_message\<close> and the message handler.
\<close>

theorem read_name_circular_pointer_never_returns:
  "read_name circular_datagram 12 = None
   \<and> parse_dns_message circular_datagram = None
   \<and> on_message fsq st circular_datagram = None"
proof -
  have rn: "read_name circular_datagram 12 = None"
    using circular_datagram_self_pointer by (rule self_pointer_diverges)
  have hd: "readUInt16BE circular_datagram 0 = Inr 0" "readUInt16BE circular_datagram 2 = Inr 33792"
    "readUInt16BE circular_datagram 4 = Inr 0" "readUInt16BE circular_datagram 6 = Inr 1"
    "readUInt16BE circular_datagram 8 = Inr 0" "readUInt16BE circular_datagram 10 = Inr 0"
    by (simp_all add: circular_datagram_def readUInt16BE_def)
  have pm: "parse_dns_message circular_datagram = None"
    by (simp add: parse_dns_message_def parse_dns_message_body_def hd and_then_def rethrow_def
        parse_record_def parse_record_body_def rn)
  from rn pm show ?thesis by (simp add: on_message_def)
qed

subsection \<open>A pointer to another name\<close>

lemma loop_jumped_result:
  assumes "read_name_loop buffer offset labels jumped orig = Some y"
  shows "\<forall>g. read_name_loop buffer offset labels True g = Some (relocated g y)"
  using assms
proof (rule read_name_loop.raw_induct[rotated 1,
         where P = "\<lambda>b off ls j g y. \<forall>g'. read_name_loop b off ls True g' = Some (relocated g' y)"],
       goal_cases)
  case (1 f b off ls j g y)
  show ?case
  proof
    fix g'
    show "read_name_loop b off ls True g' = Some (relocated g' y)"
      using 1(2) 1(1)
      by (subst read_name_loop.simps) (auto simp: relocated_def split: sum.splits if_splits)
  qed
qed

lemma loop_returns_whatever_jumped:
  assumes "read_name_loop buffer offset labels jumped orig = Some y"
  shows "\<forall>j g. \<exists>y'. read_name_loop buffer offset labels j g = Some y'"
  using assms
proof (rule read_name_loop.raw_induct[rotated 1,
         where P = "\<lambda>b off ls j g y. \<forall>j' g'. \<exists>y'. read_name_loop b off ls j' g' = Some y'"],
       goal_cases)
  case (1 f b off ls j g y)
  show ?case
  proof (intro allI)
    fix j' g'
    show "\<exists>y'. read_name_loop b off ls j' g' = Some y'"
      using 1(2) 1(1)
      by (subst read_name_loop.simps) (auto split: sum.splits if_splits)
  qed
qed

lemma loop_jumped:
  "read_name_loop buffer offset labels True g =
     map_option (relocated g) (read_name_loop buffer offset labels jumped orig)"
proof (cases "read_name_loop buffer offset labels jumped orig")
  case None
  show ?thesis
  proof (cases "read_name_loop buffer offset labels True g")
    case (Some y)
    from loop_returns_whatever_jumped[OF this] None show ?thesis
      by (metis option.distinct(1))
  qed (simp add: None)
next
  case (Some y)
  from loop_jumped_result[OF this] Some show ?thesis by simp
qed

text \<open>
  C4, as claimed: where a name is a compression pointer, \<open>read_name\<close> returns the name
  decoded at the offset pointed to, and the value it reports as consumed is exactly 2.
  The value reported, \<open>read_bytes\<close>, is the offset at which the caller goes on, not a
  number of bytes: for the pointer at offset 53 of \<open>ptr_datagram\<close> it is 55.
\<close>

theorem read_bytes_counterexample:
  "readUInt8 ptr_datagram 53 = Inr 0xC0 \<and> readUInt8 ptr_datagram 54 = Inr 12
   \<and> read_name ptr_datagram 53 =
       Some (Inr \<lparr>name = ''_smart_ip._tcp.local'', read_bytes = 55\<rparr>)"
  by (simp add: ptr_datagram_def codec_eval)

text \<open>
  C4, amended: where a name is a compression pointer, \<open>read_name\<close> returns the name that
  it returns at the offset the pointer gives, and \<open>read_bytes\<close> is the offset of the
  pointer plus 2, the offset just after the pointer: the name has taken the two bytes of
  the pointer, whatever the length of the name pointed to. A throw and a missing return at
  the target are passed on as they are.
\<close>

theorem read_name_compression_pointer:
  assumes "readUInt8 buffer offset = Inr len"
    and "len AND 0xC0 = 0xC0"
    and "readUInt8 buffer (offset + 1) = Inr lo"
  shows "read_name buffer offset =
     (case read_name buffer (push_bit 8 (len AND 0x3F) OR lo) of
        None \<Rightarrow> None
      | Some (Inl e) \<Rightarrow> Some (Inl e)
      | Some (Inr r) \<Rightarrow> Some (Inr \<lparr>name = name r, read_bytes = offset + 2\<rparr>))"
proof -
  let ?p = "push_bit 8 (len AND 0x3F) OR lo"
  from assms(2) have "len \<noteq> 0" by (rule and_192_nonzero)
  with assms have "read_name_loop buffer offset [] False offset
      = read_name_loop buffer ?p [] True (offset + 2)"
    by (subst read_name_loop.simps) simp
  also have "\<dots> = map_option (relocated (offset + 2)) (read_name_loop buffer ?p [] False ?p)"
    by (rule loop_jumped)
  finally show ?thesis
    by (cases "read_name_loop buffer ?p [] False ?p")
       (auto simp: read_name_def rethrow_def relocated_def split: sum.splits)
qed

theorem read_name_compression_pointer_witness:
  "readUInt8 ptr_datagram 53 = Inr 0xC0 \<and> (0xC0::nat) AND 0xC0 = 0xC0
   \<and> readUInt8 ptr_datagram 54 = Inr 12
   \<and> read_name ptr_datagram 12 = Some (Inr \<lparr>name = ''_smart_ip._tcp.local'', read_bytes = 34\<rparr>)
   \<and> read_name ptr_datagram 53 = Some (Inr \<lparr>name = ''_smart_ip._tcp.local'', read_bytes = 55\<rparr>)"
proof -
  have b: "readUInt8 ptr_datagram 53 = Inr 0xC0" "readUInt8 ptr_datagram (53 + 1) = Inr 12"
    by (simp_all add: ptr_datagram_def Buffer_from_def readUInt8_def)
  have a: "(0xC0::nat) AND 0xC0 = 0xC0" by simp
  have t: "read_name ptr_datagram 12
      = Some (Inr \<lparr>name = ''_smart_ip._tcp.local'', read_bytes = 34\<rparr>)"
    by (simp add: ptr_datagram_def codec_eval)
  from read_name_compression_pointer[OF b(1) a b(2)] t b show ?thesis by simp
qed

section \<open>The message handler\<close>

text \<open>
  C10. A datagram on which \<open>parse_dns_message\<close> throws leaves the session, that is the
  \<open>services\<close> object and the \<open>unique_services\<close> Map, as it was: the handler parses the
  whole message before the record loop starts, and its \<open>catch\<close> returns normally, so the
  datagrams after it are handled as if it had not arrived.
\<close>

theorem decode_failure_leaves_session:
  assumes "parse_dns_message msg = Some (Inl e)"
  shows "on_message fsq st msg = Some st
         \<and> on_messages fsq st (msg # msgs) = on_messages fsq st msgs"
  using assms by (simp add: on_message_def)

theorem decode_failure_leaves_session_witness:
  "parse_dns_message truncated_datagram =
     Some (Inl (Error ''Error parsing DNS message: ''
                 (Error ''Error parsing record: ''
                   (Error ''Error reading name from buffer: '' ERR_OUT_OF_RANGE))))
   \<and> on_message ''_smart_ip._tcp.local'' initial_session truncated_datagram = Some initial_session
   \<and> on_messages ''_smart_ip._tcp.local'' initial_session [truncated_datagram] = Some initial_session"
  using decode_failure_leaves_session[OF truncated_datagram_parsed,
          of "''_smart_ip._tcp.local''" initial_session "[]"]
    truncated_datagram_parsed
  by simp

section \<open>Configuration\<close>

text \<open>
  C6, as claimed: a search without \<open>interface\<close> fails before any socket is touched. It
  does not: with no options at all, both search functions create the socket, bind it to
  the address 169.254.137.22 and arm the timer.
\<close>

theorem unset_interface_counterexample:
  "search_mdns_services no_options =
     [CreateSocket, Bind 5353 ''169.254.137.22'', SetTimeout (JNumber 5000)]
   \<and> search_mdns_servicesmv1 no_options =
     [ConsoleLog, CreateSocket, Bind 5353 ''169.254.137.22'', SetTimeout (JNumber 5000)]"
  by (simp add: search_mdns_services_def search_mdns_servicesmv1_def start_mdns_listener_def
      listener_of_def no_options_def string_or_def number_or_def js_or_def)

text \<open>
  C6, amended: an \<open>interface\<close> that is left out, or empty, is replaced by the documented
  default 169.254.137.22; the listener creates its socket and binds it to that address.
\<close>

theorem unset_interface_uses_default:
  assumes "opt_interface opts = None \<or> opt_interface opts = Some []"
  shows "local_interface (listener_of opts) = ''169.254.137.22''
         \<and> start_mdns_listener opts =
             [CreateSocket, Bind (number_or (opt_mdns_port opts) 5353) ''169.254.137.22'']"
  using assms by (auto simp: start_mdns_listener_def listener_of_def string_or_def)

theorem unset_interface_uses_default_witness:
  "(opt_interface no_options = None \<or> opt_interface no_options = Some [])
   \<and> local_interface (listener_of no_options) = ''169.254.137.22''
   \<and> start_mdns_listener no_options = [CreateSocket, Bind 5353 ''169.254.137.22'']"
proof -
  have h: "opt_interface no_options = None \<or> opt_interface no_options = Some []"
    by (simp add: no_options_def)
  from unset_interface_uses_default[OF h] h show ?thesis
    by (simp add: no_options_def number_or_def)
qed

text \<open>
  C7, as claimed: a timeout that is not a positive number makes both search functions
  fail before any socket is touched. With the timeout \<open>-1\<close> neither fails:
  \<open>search_mdns_services\<close> arms the timer with \<open>-1\<close> itself, \<open>search_mdns_servicesmv1\<close> with
  5000, both after the socket is created and bound.
\<close>

theorem invalid_timeout_counterexample:
  "search_mdns_services (no_options\<lparr>opt_timeout := JNumber (- 1)\<rparr>) =
     [CreateSocket, Bind 5353 ''169.254.137.22'', SetTimeout (JNumber (- 1))]
   \<and> search_mdns_servicesmv1 (no_options\<lparr>opt_timeout := JNumber (- 1)\<rparr>) =
     [ConsoleLog, CreateSocket, Bind 5353 ''169.254.137.22'', SetTimeout (JNumber 5000)]"
  by (simp add: search_mdns_services_def search_mdns_servicesmv1_def start_mdns_listener_def
      listener_of_def no_options_def string_or_def number_or_def js_or_def)

text \<open>
  C7, amended: a timeout that is not a positive number never makes a search fail.
  \<open>search_mdns_servicesmv1\<close> replaces it by 5000; \<open>search_mdns_services\<close> replaces it by
  5000 when it is falsy and hands it to the timer as it is otherwise. Both start the
  listener first.
\<close>

theorem invalid_timeout_falls_back:
  assumes "\<not> positive_number (opt_timeout opts)"
  shows "search_mdns_servicesmv1 opts =
           [ConsoleLog] @ start_mdns_listener opts @ [SetTimeout (JNumber 5000)]
         \<and> search_mdns_services opts =
           start_mdns_listener opts
           @ [SetTimeout (if truthy (opt_timeout opts) then opt_timeout opts else JNumber 5000)]"
  using assms by (simp add: search_mdns_servicesmv1_def search_mdns_services_def js_or_def)

theorem invalid_timeout_falls_back_witness:
  "\<not> positive_number (opt_timeout (no_options\<lparr>opt_timeout := JString ''soon''\<rparr>))
   \<and> search_mdns_servicesmv1 (no_options\<lparr>opt_timeout := JString ''soon''\<rparr>) =
       [ConsoleLog, CreateSocket, Bind 5353 ''169.254.137.22'', SetTimeout (JNumber 5000)]
   \<and> search_mdns_services (no_options\<lparr>opt_timeout := JString ''soon''\<rparr>) =
       [CreateSocket, Bind 5353 ''169.254.137.22'', SetTimeout (JString ''soon'')]"
proof -
  have h: "\<not> positive_number (opt_timeout (no_options\<lparr>opt_timeout := JString ''soon''\<rparr>))"
    by simp
  from invalid_timeout_falls_back[OF h] h show ?thesis
    by (simp add: start_mdns_listener_def listener_of_def no_options_def string_or_def
        number_or_def)
qed

section \<open>Delivery at the deadline\<close>

text \<open>
  After the \<open>'error'\<close> handler has closed the socket, the \<open>socket.close()\<close> of either timer
  callback throws: no callback is called and the promise is not resolved.
\<close>

lemma deadline_after_socket_error:
  "search_mdns_servicesmv1_deadline opts (fst (on_socket_error Running)) st
     = [Uncaught ERR_SOCKET_DGRAM_NOT_RUNNING]
   \<and> search_mdns_services_deadline opts (fst (on_socket_error Running)) st
     = [Uncaught ERR_SOCKET_DGRAM_NOT_RUNNING]"
  by (simp add: search_mdns_servicesmv1_deadline_def search_mdns_services_deadline_def
      on_socket_error_def socket_close_def)

text \<open>
  C2, as claimed: the result goes through exactly one of the two channels, also when the
  caller of \<open>search_mdns_servicesmv1\<close> supplies \<open>on_search_complete\<close>. With a function as
  \<open>on_search_complete\<close> the timer callback of \<open>search_mdns_servicesmv1\<close>, on a running
  socket, calls it and then resolves the promise: both channels deliver.
\<close>

theorem both_channels_counterexample:
  "search_mdns_servicesmv1_deadline (no_options\<lparr>opt_on_search_complete := JFunction\<rparr>)
       Running initial_session =
     [CloseSocket, OnSearchComplete [], ConsoleLog, Resolve []]"
  by (simp add: search_mdns_servicesmv1_deadline_def socket_close_def uniqueServiceArray_def
      initial_session_def)

text \<open>
  C2, amended: when the deadline fires on a session whose socket is still running,
  \<open>search_mdns_servicesmv1\<close> closes the socket, then calls \<open>on_search_complete\<close> exactly
  once when it is a function, and after that resolves its promise exactly once, with the
  same array; \<open>search_mdns_services\<close> has no promise and, after closing the socket, calls
  \<open>on_search_complete\<close> exactly once when it is a function. No channel delivers twice.
\<close>

theorem delivery_channels:
  "search_mdns_servicesmv1_deadline opts Running st =
       CloseSocket #
       (if opt_on_search_complete opts = JFunction then [OnSearchComplete (uniqueServiceArray st)]
        else [])
       @ [ConsoleLog, Resolve (uniqueServiceArray st)]
   \<and> length (filter by_promise (search_mdns_servicesmv1_deadline opts Running st)) = 1
   \<and> length (filter by_callback (search_mdns_servicesmv1_deadline opts Running st)) =
       (if opt_on_search_complete opts = JFunction then 1 else 0)
   \<and> search_mdns_services_deadline opts Running st =
       CloseSocket #
       (if opt_on_search_complete opts = JFunction then [OnSearchComplete (uniqueServiceArray st)]
        else if truthy (opt_on_search_complete opts) then [Uncaught TypeError]
        else [ConsoleLog])
   \<and> filter by_promise (search_mdns_services_deadline opts Running st) = []
   \<and> length (filter by_callback (search_mdns_services_deadline opts Running st)) =
       (if opt_on_search_complete opts = JFunction then 1 else 0)"
  by (simp add: search_mdns_servicesmv1_deadline_def search_mdns_services_deadline_def
      socket_close_def)

theorem delivery_channels_witness:
  "search_mdns_servicesmv1_deadline (no_options\<lparr>opt_on_search_complete := JFunction\<rparr>)
       Running initial_session = [CloseSocket, OnSearchComplete [], ConsoleLog, Resolve []]
   \<and> search_mdns_servicesmv1_deadline no_options Running initial_session =
       [CloseSocket, ConsoleLog, Resolve []]
   \<and> search_mdns_services_deadline (no_options\<lparr>opt_on_search_complete := JFunction\<rparr>)
       Running initial_session = [CloseSocket, OnSearchComplete []]
   \<and> search_mdns_services_deadline no_options Running initial_session =
       [CloseSocket, ConsoleLog]"
  using delivery_channels[of "no_options\<lparr>opt_on_search_complete := JFunction\<rparr>" initial_session]
    delivery_channels[of no_options initial_session]
  by (simp add: uniqueServiceArray_def initial_session_def no_options_def)

section \<open>Aggregation of records\<close>

lemma smart_has_dot:
  assumes "is_smart_ip_service nm (sq @ ''.local'')"
  shows "CHR ''.'' \<in> set nm"
proof -
  from assms consider "nm = sq @ ''.local''" | "endsWith nm (''.'' @ sq @ ''.local'')"
    by (auto simp: is_smart_ip_service_def)
  then show ?thesis
  proof cases
    case 1 then show ?thesis by simp
  next
    case 2
    then have "drop (length nm - length (''.'' @ sq @ ''.local'')) nm = ''.'' @ sq @ ''.local''"
      by (simp add: endsWith_def)
    then have "CHR ''.'' \<in> set (drop (length nm - length (''.'' @ sq @ ''.local'')) nm)"
      by simp
    then show ?thesis by (rule in_set_dropD)
  qed
qed

lemma smart_not_prototype_key:
  assumes "is_smart_ip_service nm (sq @ ''.local'')"
  shows "nm \<notin> set object_prototype_keys"
  using smart_has_dot[OF assms] by (auto simp: object_prototype_keys_def)

lemma mset_eq_ConsE:
  assumes "mset rs = mset (x # xs)"
  obtains y rs' where "rs = y # rs'" "y \<in> set (x # xs)" "mset rs' = mset (remove1 y (x # xs))"
proof -
  from assms have "rs \<noteq> []" by auto
  then obtain y rs' where rs: "rs = y # rs'" by (cases rs) auto
  have "y \<in> set (x # xs)" using assms rs by (metis list.set_intros(1) mset_eq_setD)
  moreover have "mset rs' = mset (remove1 y (x # xs))"
    using assms rs by (metis mset_remove1 add_mset_remove_trivial mset.simps(2))
  ultimately show ?thesis using rs that by blast
qed

lemma perm2:
  assumes "mset rs = mset [a, b]"
  shows "rs = [a, b] \<or> rs = [b, a]"
proof -
  from assms obtain y r where rs: "rs = y # r" "y \<in> set [a, b]" "mset r = mset (remove1 y [a, b])"
    by (rule mset_eq_ConsE)
  show ?thesis
  proof (cases "y = a")
    case True
    with rs(3) have "r = [b]" by simp
    with rs(1) True show ?thesis by simp
  next
    case False
    with rs(2) have "y = b" by simp
    with rs(3) False have "r = [a]" by simp
    with rs(1) \<open>y = b\<close> show ?thesis by simp
  qed
qed

lemma perm3:
  assumes "mset rs = mset [a, b, c]" and "distinct [a, b, c]"
  shows "rs \<in> {[a,b,c],[a,c,b],[b,a,c],[b,c,a],[c,a,b],[c,b,a]}"
proof -
  from assms(1) obtain y r where rs: "rs = y # r" "y \<in> set [a, b, c]"
      "mset r = mset (remove1 y [a, b, c])"
    by (rule mset_eq_ConsE)
  from rs(2) consider "y = a" | "y = b" | "y = c" by auto
  then show ?thesis
  proof cases
    case 1
    with rs(3) have "mset r = mset [b, c]" by simp
    from perm2[OF this] rs(1) 1 show ?thesis by auto
  next
    case 2
    with rs(3) assms(2) have "mset r = mset [a, c]" by auto
    from perm2[OF this] rs(1) 2 show ?thesis by auto
  next
    case 3
    with rs(3) assms(2) have "mset r = mset [a, b]" by auto
    from perm2[OF this] rs(1) 3 show ?thesis by auto
  qed
qed

lemma perm4:
  assumes "mset rs = mset [a, b, c, d]" and "distinct [a, b, c, d]"
  shows "rs \<in> {[a,b,c,d],[a,b,d,c],[a,c,b,d],[a,c,d,b],[a,d,b,c],[a,d,c,b],
               [b,a,c,d],[b,a,d,c],[b,c,a,d],[b,c,d,a],[b,d,a,c],[b,d,c,a],
               [c,a,b,d],[c,a,d,b],[c,b,a,d],[c,b,d,a],[c,d,a,b],[c,d,b,a],
               [d,a,b,c],[d,a,c,b],[d,b,a,c],[d,b,c,a],[d,c,a,b],[d,c,b,a]}"
proof -
  from assms(1) obtain y r where rs: "rs = y # r" "y \<in> set [a, b, c, d]"
      "mset r = mset (remove1 y [a, b, c, d])"
    by (rule mset_eq_ConsE)
  from rs(2) consider "y = a" | "y = b" | "y = c" | "y = d" by auto
  then show ?thesis
  proof cases
    case 1
    with rs(3) have "mset r = mset [b, c, d]" by simp
    from perm3[OF this] assms(2) have "r \<in> {[b,c,d],[b,d,c],[c,b,d],[c,d,b],[d,b,c],[d,c,b]}" by simp
    with rs(1) 1 show ?thesis by (elim insertE emptyE) simp_all
  next
    case 2
    with rs(3) assms(2) have "mset r = mset [a, c, d]" by auto
    from perm3[OF this] assms(2) have "r \<in> {[a,c,d],[a,d,c],[c,a,d],[c,d,a],[d,a,c],[d,c,a]}" by simp
    with rs(1) 2 show ?thesis by (elim insertE emptyE) simp_all
  next
    case 3
    with rs(3) assms(2) have "mset r = mset [a, b, d]" by auto
    from perm3[OF this] assms(2) have "r \<in> {[a,b,d],[a,d,b],[b,a,d],[b,d,a],[d,a,b],[d,b,a]}" by simp
    with rs(1) 3 show ?thesis by (elim insertE emptyE) simp_all
  next
    case 4
    with rs(3) assms(2) have "mset r = mset [a, b, c]" by auto
    from perm3[OF this] assms(2) have "r \<in> {[a,b,c],[a,c,b],[b,a,c],[b,c,a],[c,a,b],[c,b,a]}" by simp
    with rs(1) 4 show ?thesis by (elim insertE emptyE) simp_all
  qed
qed


lemma ensure_Nil: "key \<notin> set object_prototype_keys \<Longrightarrow> ensure [] key = [(key, new_entry key)]"
  by (simp add: ensure_def truthy_at_def new_entry_def)

lemma ensure_single: "ensure [(key, e)] key = [(key, e)]"
  by (simp add: ensure_def truthy_at_def)

lemma modify_single: "modify [(key, e)] key f = [(key, f e)]"
  by (simp add: modify_def)

lemma push_Nil: "map (push_address owner ip) [] = []"
  by simp

lemma push_single:
  "push_address owner ip (key, e) =
     (key, if svc_target e = Some owner
            then e\<lparr>svc_addresses := Some ((case svc_addresses e of None \<Rightarrow> [] | Some a \<Rightarrow> a) @ [ip])\<rparr>
            else e)"
  by (simp add: push_address_def)

lemma reported_single:
  "is_smart_ip_service (svc_name e) fsq \<Longrightarrow>
   map (read_out [(key, e)]) (found_services fsq [(key, e)]) =
     [\<lparr>dev_name = display_name (svc_name e) fsq,
       dev_addresses = (case svc_addresses e of None \<Rightarrow> [] | Some a \<Rightarrow> a),
       dev_port = svc_port e,
       dev_properties = (case svc_txt e of None \<Rightarrow> Map.empty | Some txts \<Rightarrow> txts)\<rparr>]"
  by (simp add: found_services_def read_out_def array_contents_def split: option.splits)

lemma aggregation_in_domain:
  assumes fsq: "fsq = sq @ ''.local''"
    and p: "is_ptr fsq inst p" and s: "is_srv inst prt tgt s"
    and t: "is_txt inst props t" and a: "is_a tgt ip a"
    and rs: "mset rs = mset [p, s, t, a]"
    and True: "is_smart_ip_service inst fsq"
  shows "reported fsq rs =
      [\<lparr>dev_name = display_name inst fsq,
             dev_addresses = (if precedes s a rs then [ip] else []),
             dev_port = Some prt, dev_properties = props\<rparr>]"
proof -
  have d: "distinct [p, s, t, a]"
    using p s t a by (auto simp: is_ptr_def is_srv_def is_txt_def is_a_def split: rdata.splits)
  note cases = perm4[OF rs d]
    have npk: "inst \<notin> set object_prototype_keys"
      using smart_not_prototype_key fsq True by blast
    have neq: "p \<noteq> s" "p \<noteq> t" "p \<noteq> a" "s \<noteq> t" "s \<noteq> a" "t \<noteq> a" 
       "s \<noteq> p" "t \<noteq> p" "a \<noteq> p" "t \<noteq> s" "a \<noteq> s" "a \<noteq> t" using d by auto
    have step_p: "\<And>S. process_record fsq S p = ensure S inst"
      using p by (simp add: process_record_def is_ptr_def)
    have step_s: "\<And>S. process_record fsq S s = modify (ensure S inst) inst (\<lambda>e. e\<lparr>svc_port := Some prt, svc_target := Some tgt\<rparr>)"
      using s True by (auto simp add: process_record_def is_srv_def split: rdata.splits)
    have step_t: "\<And>S. process_record fsq S t = modify (ensure S inst) inst (\<lambda>e. e\<lparr>svc_txt := Some props\<rparr>)"
      using t True by (auto simp add: process_record_def is_txt_def)
    have step_a: "\<And>S. process_record fsq S a = map (push_address tgt ip) S"
      using a by (auto simp add: process_record_def is_a_def)
    have en: "ensure [] inst = [(inst, new_entry inst)]" using npk by (rule ensure_Nil)
    note steps = step_p step_s step_t step_a en ensure_single modify_single push_Nil push_single
    have "\<And>xs. xs \<in> {[p,s,t,a],[p,s,a,t],[p,t,s,a],[p,t,a,s],[p,a,s,t],[p,a,t,s],
               [s,p,t,a],[s,p,a,t],[s,t,p,a],[s,t,a,p],[s,a,p,t],[s,a,t,p],
               [t,p,s,a],[t,p,a,s],[t,s,p,a],[t,s,a,p],[t,a,p,s],[t,a,s,p],
               [a,p,s,t],[a,p,t,s],[a,s,p,t],[a,s,t,p],[a,t,p,s],[a,t,s,p]} \<Longrightarrow>
       \<exists>e. process_records fsq [] xs = [(inst, e)] \<and> svc_name e = inst \<and> svc_port e = Some prt \<and> svc_txt e = Some props
           \<and> svc_addresses e = (if precedes s a xs then Some [ip] else None)"
      apply (simp only: insert_iff empty_iff)
      apply (elim disjE FalseE)
      apply (simp_all add: process_records_def steps new_entry_def precedes_def neq)
      done
   from this[OF cases] obtain e where e: "process_records fsq [] rs = [(inst, e)]" "svc_name e = inst" "svc_port e = Some prt" "svc_txt e = Some props"
           "svc_addresses e = (if precedes s a rs then Some [ip] else None)" by blast
   show ?thesis
     using True e(2-) by (simp add: reported_def e(1) reported_single)
qed

lemma outside_domain_names:
  assumes p: "is_ptr fsq inst p" and s: "is_srv inst prt tgt s"
    and t: "is_txt inst props t" and a: "is_a tgt ip a"
    and out: "\<not> is_smart_ip_service inst fsq"
    and rs: "set rs \<subseteq> {p, s, t, a}"
    and S: "\<forall>(k, e) \<in> set S. svc_name e = inst"
  shows "\<forall>(k, e) \<in> set (process_records fsq S rs). svc_name e = inst"
  using rs S
proof (induction rs arbitrary: S)
  case Nil
  then show ?case by (simp add: process_records_def)
next
  case (Cons r rs)
  have "\<forall>(k, e) \<in> set (process_record fsq S r). svc_name e = inst"
  proof -
    from Cons.prems(1) consider "r = p" | "r = s" | "r = t" | "r = a" by auto
    then show ?thesis
    proof cases
      case 1
      with p Cons.prems(2) show ?thesis
        by (auto simp: process_record_def is_ptr_def ensure_def new_entry_def)
    next
      case 2
      with s out Cons.prems(2) show ?thesis
        by (auto simp: process_record_def is_srv_def split: rdata.splits)
    next
      case 3
      with t out Cons.prems(2) show ?thesis
        by (auto simp: process_record_def is_txt_def)
    next
      case 4
      with a Cons.prems(2) show ?thesis
        by (auto simp: process_record_def is_a_def push_address_def split: if_splits)
    qed
  qed
  moreover from Cons.prems(1) have "set rs \<subseteq> {p, s, t, a}" by simp
  ultimately have "\<forall>(k, e) \<in> set (process_records fsq (process_record fsq S r) rs). svc_name e = inst"
    by (rule Cons.IH[rotated])
  then show ?case by (simp add: process_records_def)
qed

lemma aggregation_outside_domain:
  assumes p: "is_ptr fsq inst p" and s: "is_srv inst prt tgt s"
    and t: "is_txt inst props t" and a: "is_a tgt ip a"
    and out: "\<not> is_smart_ip_service inst fsq"
    and rs: "mset rs = mset [p, s, t, a]"
  shows "reported fsq rs = []"
proof -
  from rs have "set rs = set [p, s, t, a]" by (rule mset_eq_setD)
  then have sub: "set rs \<subseteq> {p, s, t, a}" by simp
  have "\<forall>(k, e) \<in> set (process_records fsq [] rs). svc_name e = inst"
    by (rule outside_domain_names[OF p s t a out sub]) simp
  with out have "filter (\<lambda>(instance, e). is_smart_ip_service (svc_name e) fsq) (process_records fsq [] rs) = []"
    by (auto simp: filter_empty_conv)
  then show ?thesis by (simp add: reported_def found_services_def)
qed

lemmas correlator_eval = reported_def process_records_def process_record_def is_smart_ip_service_def endsWith_def
  ensure_def truthy_at_def new_entry_def object_prototype_keys_def modify_def push_address_def found_services_def
  read_out_def array_contents_def display_name_def

text \<open>
  C1, as claimed: the four records of an instance give the same entry in every order of
  arrival. An A record is matched against the \<open>target\<close> that an SRV record has stored;
  when it arrives before the SRV record nothing matches and the address is dropped.
\<close>

theorem aggregation_order_counterexample:
  "map dev_addresses (reported ''_smart_ip._tcp.local'' [ptr_record, srv_record, txt_record, a_record]) = [[''192.168.1.50'']]
  \<and> map dev_addresses (reported ''_smart_ip._tcp.local'' [a_record, ptr_record, srv_record, txt_record]) = [[]]"
  by (simp add: ptr_record_def srv_record_def txt_record_def a_record_def correlator_eval)

text \<open>
  C1, amended: for the PTR record of an instance, its SRV and TXT records and the A record
  of the SRV target, arriving in any order, the correlator reports one entry for an
  instance under the queried service, with the same name, port and properties in every
  order. Its addresses are the address of the A record in every order in which the SRV
  record arrives before the A record, and empty in every other order. For an instance
  outside the queried service nothing is reported, in every order.
\<close>

theorem aggregation_by_arrival_order:
  assumes fsq: "fsq = sq @ ''.local''"
    and p: "is_ptr fsq inst p" and s: "is_srv inst prt tgt s"
    and t: "is_txt inst props t" and a: "is_a tgt ip a"
    and rs: "mset rs = mset [p, s, t, a]"
  shows "reported fsq rs =
     (if is_smart_ip_service inst fsq
      then [\<lparr>dev_name = display_name inst fsq,
             dev_addresses = (if precedes s a rs then [ip] else []),
             dev_port = Some prt, dev_properties = props\<rparr>]
      else [])"
  using aggregation_in_domain[OF fsq p s t a rs] aggregation_outside_domain[OF p s t a _ rs]
  by simp


theorem aggregation_by_arrival_order_witness:
  "reported ''_smart_ip._tcp.local'' [txt_record, srv_record, a_record, ptr_record] =
     [\<lparr>dev_name = ''device-1'', dev_addresses = [''192.168.1.50''], dev_port = Some 8080,
       dev_properties = [''v'' \<mapsto> TxtString ''1'']\<rparr>]
   \<and> reported ''_smart_ip._tcp.local'' [a_record, txt_record, ptr_record, srv_record] =
     [\<lparr>dev_name = ''device-1'', dev_addresses = [], dev_port = Some 8080,
       dev_properties = [''v'' \<mapsto> TxtString ''1'']\<rparr>]"
proof -
  have f: "''_smart_ip._tcp.local'' = ''_smart_ip._tcp'' @ ''.local''" by simp
  have p: "is_ptr ''_smart_ip._tcp.local'' ''device-1._smart_ip._tcp.local'' ptr_record"
    by (simp add: is_ptr_def ptr_record_def)
  have s: "is_srv ''device-1._smart_ip._tcp.local'' 8080 ''host.local'' srv_record"
    by (simp add: is_srv_def srv_record_def)
  have t: "is_txt ''device-1._smart_ip._tcp.local'' [''v'' \<mapsto> TxtString ''1''] txt_record"
    by (simp add: is_txt_def txt_record_def)
  have a: "is_a ''host.local'' ''192.168.1.50'' a_record"
    by (simp add: is_a_def a_record_def)
  have m1: "mset [txt_record, srv_record, a_record, ptr_record] = mset [ptr_record, srv_record, txt_record, a_record]" by simp
  have m2: "mset [a_record, txt_record, ptr_record, srv_record] = mset [ptr_record, srv_record, txt_record, a_record]" by simp
  have sm: "is_smart_ip_service ''device-1._smart_ip._tcp.local'' ''_smart_ip._tcp.local''"
    by (simp add: is_smart_ip_service_def endsWith_def)
  have ne: "srv_record \<noteq> a_record" "txt_record \<noteq> a_record" "ptr_record \<noteq> a_record" by (simp_all add: srv_record_def a_record_def txt_record_def ptr_record_def)
  have d: "display_name ''device-1._smart_ip._tcp.local'' ''_smart_ip._tcp.local'' = ''device-1''"
    by (simp add: display_name_def endsWith_def)
  from aggregation_by_arrival_order[OF f p s t a m1] aggregation_by_arrival_order[OF f p s t a m2] sm ne d
  show ?thesis by (simp add: precedes_def)
qed


section \<open>The session over several messages\<close>

lemma a_datagram_parsed:
  "parse_dns_message a_datagram =
     Some (Inr \<lparr>header = \<lparr>hdr_id = 0, hdr_flags = 33792, qdcount = 0, ancount = 1,
                           nscount = 0, arcount = 0\<rparr>,
                records = [a_record]\<rparr>)"
  by (simp add: a_datagram_def a_record_def codec_eval)

lemma after_ptr:
  "on_message ''_smart_ip._tcp.local'' initial_session ptr_datagram = Some session_after_ptr"
  by (simp add: on_message_def ptr_datagram_parsed initial_session_def session_after_ptr_def
      first_report_def on_service_found_def correlator_eval)

lemma after_srv_a:
  "on_messages ''_smart_ip._tcp.local'' session_after_ptr [srv_datagram, a_datagram] = Some session_at_deadline"
  by (simp add: on_message_def srv_datagram_parsed a_datagram_parsed a_record_def session_after_ptr_def session_at_deadline_def
      first_report_def on_service_found_def correlator_eval)

text \<open>
  C5, as claimed: one entry per name, and the SRV, TXT and A records of later messages
  show in the Device delivered at the deadline. After \<open>ptr_datagram\<close>, \<open>srv_datagram\<close> and
  \<open>a_datagram\<close> the entry of the correlator has the port 8080 and the address, while the
  Device delivered for \<open>device-1\<close> is the object of the first report, without port and
  without address.
\<close>

theorem later_updates_counterexample: 
  "on_messages ''_smart_ip._tcp.local'' initial_session [ptr_datagram, srv_datagram, a_datagram] = Some session_at_deadline
   \<and> map svc_port (map snd (services session_at_deadline)) = [Some 8080]
   \<and> map svc_addresses (map snd (services session_at_deadline)) = [Some [''192.168.1.50'']]
   \<and> map dev_port (uniqueServiceArray session_at_deadline) = [None]
   \<and> map dev_addresses (uniqueServiceArray session_at_deadline) = [[]]"
  using after_ptr after_srv_a
  by (simp add: session_at_deadline_def uniqueServiceArray_def read_out_def first_report_def array_contents_def)

lemma on_service_found_keeps:
  "map_of unique n = Some s \<Longrightarrow> map_of (on_service_found unique d) n = Some s"
  by (simp add: on_service_found_def map_add_def)

lemma on_service_found_keyed:
  "keyed_by_name unique \<Longrightarrow> keyed_by_name (on_service_found unique d)"
  by (auto simp: on_service_found_def keyed_by_name_def map_of_eq_None_iff)

lemma foldl_on_service_found_keeps:
  "map_of unique n = Some s \<Longrightarrow> map_of (foldl on_service_found unique ds) n = Some s"
  by (induction ds arbitrary: unique) (simp_all add: on_service_found_keeps)

lemma foldl_on_service_found_keyed:
  "keyed_by_name unique \<Longrightarrow> keyed_by_name (foldl on_service_found unique ds)"
  by (induction ds arbitrary: unique) (simp_all add: on_service_found_keyed)

lemma on_message_keeps:
  assumes "on_message fsq st msg = Some st'"
  shows "(map_of (unique_services st) n = Some s \<longrightarrow> map_of (unique_services st') n = Some s)
       \<and> (keyed_by_name (unique_services st) \<longrightarrow> keyed_by_name (unique_services st'))"
  using assms
  by (auto simp: on_message_def Let_def foldl_on_service_found_keeps foldl_on_service_found_keyed
      split: option.splits sum.splits)

lemma on_messages_keeps:
  assumes "on_messages fsq st msgs = Some st'"
  shows "(map_of (unique_services st) n = Some s \<longrightarrow> map_of (unique_services st') n = Some s)
       \<and> (keyed_by_name (unique_services st) \<longrightarrow> keyed_by_name (unique_services st'))"
  using assms
proof (induction msgs arbitrary: st)
  case Nil
  then show ?case by simp
next
  case (Cons msg msgs)
  then obtain st1 where 1: "on_message fsq st msg = Some st1" "on_messages fsq st1 msgs = Some st'"
    by (auto split: option.splits)
  from on_message_keeps[OF 1(1)] Cons.IH[OF 1(2)] show ?case by blast
qed

lemma filter_key:
  "distinct (map fst xs) \<Longrightarrow> map_of xs n = Some s \<Longrightarrow> filter (\<lambda>(k, v). k = n) xs = [(n, s)]"
proof (induction xs)
  case Nil
  then show ?case by simp
next
  case (Cons x xs)
  obtain k v where x: "x = (k, v)" by (cases x)
  show ?case
  proof (cases "k = n")
    case True
    with Cons.prems x have "s = v" "n \<notin> fst ` set xs" by auto
    then have "filter (\<lambda>(k, v). k = n) xs = []"
      by (force simp: filter_empty_conv)
    with True x \<open>s = v\<close> show ?thesis by simp
  next
    case False
    with Cons x show ?thesis by simp
  qed
qed

lemma delivered_of_keyed:
  assumes "keyed_by_name (unique_services st)"
  shows "distinct (map dev_name (uniqueServiceArray st))"
    and "map_of (unique_services st) n = Some s \<Longrightarrow>
         filter (\<lambda>d. dev_name d = n) (uniqueServiceArray st) = [read_out (services st) s]"
proof -
  have nm: "map dev_name (uniqueServiceArray st) = map fst (unique_services st)"
    using assms by (auto simp: uniqueServiceArray_def keyed_by_name_def read_out_def)
  with assms show "distinct (map dev_name (uniqueServiceArray st))"
    by (simp add: keyed_by_name_def)
  assume m: "map_of (unique_services st) n = Some s"
  have "filter ((\<lambda>d. dev_name d = n) \<circ> (\<lambda>(nm, s). read_out (services st) s)) (unique_services st)
      = filter (\<lambda>(k, v). k = n) (unique_services st)"
    using assms by (intro filter_cong) (auto simp: keyed_by_name_def read_out_def)
  then have "filter (\<lambda>d. dev_name d = n) (uniqueServiceArray st)
      = map (\<lambda>(nm, s). read_out (services st) s) (filter (\<lambda>(k, v). k = n) (unique_services st))"
    by (simp add: uniqueServiceArray_def filter_map)
  also have "\<dots> = [read_out (services st) s]"
    using filter_key[OF _ m] assms by (simp add: keyed_by_name_def)
  finally show "filter (\<lambda>d. dev_name d = n) (uniqueServiceArray st) = [read_out (services st) s]" .
qed

lemma found_names_set:
  "found_name ` set (found_services fsq S) =
     (\<lambda>nm. display_name nm fsq) ` {nm \<in> entry_names S. is_smart_ip_service nm fsq}"
  by (force simp: found_services_def entry_names_def)

lemma entry_names_ensure: "entry_names S \<subseteq> entry_names (ensure S key)"
  by (auto simp: ensure_def entry_names_def)

lemma entry_names_modify:
  "(\<And>e. svc_name (f e) = svc_name e) \<Longrightarrow> entry_names (modify S key f) = entry_names S"
  by (induction S) (auto simp: modify_def entry_names_def)

lemma entry_names_push: "entry_names (map (push_address owner ip) S) = entry_names S"
  by (induction S) (auto simp: push_address_def entry_names_def)

lemma process_record_keeps_names: "entry_names S \<subseteq> entry_names (process_record fsq S r)"
  by (simp add: process_record_def entry_names_modify entry_names_push entry_names_ensure
      split: rdata.splits)

lemma process_records_keeps_names: "entry_names S \<subseteq> entry_names (process_records fsq S rs)"
proof (induction rs arbitrary: S)
  case Nil
  then show ?case by (simp add: process_records_def)
next
  case (Cons r rs)
  have "entry_names S \<subseteq> entry_names (process_record fsq S r)"
    by (rule process_record_keeps_names)
  also have "\<dots> \<subseteq> entry_names (process_records fsq (process_record fsq S r) rs)"
    by (rule Cons.IH)
  finally show ?case by (simp add: process_records_def)
qed

lemma found_names_mono:
  "found_name ` set (found_services fsq S)
     \<subseteq> found_name ` set (found_services fsq (process_records fsq S rs))"
  unfolding found_names_set using process_records_keeps_names[of S fsq rs] by blast

lemma foldl_on_service_found_keys:
  "fst ` set (foldl on_service_found unique ds) = fst ` set unique \<union> found_name ` set ds"
proof (induction ds arbitrary: unique)
  case Nil
  then show ?case by simp
next
  case (Cons d ds)
  have "fst ` set (on_service_found unique d) = insert (found_name d) (fst ` set unique)"
    by (auto simp: on_service_found_def map_of_eq_None_iff)
  with Cons.IH[of "on_service_found unique d"] show ?case by auto
qed

lemma foldl_on_service_found_first:
  assumes "map_of unique n = None" and "find (\<lambda>d. found_name d = n) ds = Some s"
  shows "map_of (foldl on_service_found unique ds) n = Some s"
  using assms
proof (induction ds arbitrary: unique)
  case Nil
  then show ?case by simp
next
  case (Cons d ds)
  show ?case
  proof (cases "found_name d = n")
    case True
    with Cons.prems have "map_of (on_service_found unique d) n = Some s"
      by (simp add: on_service_found_def map_add_def)
    then show ?thesis by (simp add: foldl_on_service_found_keeps)
  next
    case False
    with Cons.prems have "map_of (on_service_found unique d) n = None"
      "find (\<lambda>d. found_name d = n) ds = Some s"
      by (simp_all add: on_service_found_def)
    from Cons.IH[OF this] show ?thesis by simp
  qed
qed

lemma on_message_cases:
  assumes "on_message fsq st msg = Some st'"
  shows "st' = st \<or>
    (\<exists>rs. services st' = process_records fsq (services st) rs
       \<and> unique_services st' = foldl on_service_found (unique_services st)
                                  (found_services fsq (services st')))"
  using assms
  by (auto simp: on_message_def Let_def split: option.splits sum.splits)

lemma on_message_names_stored:
  assumes "on_message fsq st msg = Some st'" and "names_stored fsq st"
  shows "names_stored fsq st'"
proof -
  from on_message_cases[OF assms(1)] show ?thesis
  proof
    assume "st' = st" with assms(2) show ?thesis by simp
  next
    assume "\<exists>rs. services st' = process_records fsq (services st) rs
       \<and> unique_services st' = foldl on_service_found (unique_services st)
                                  (found_services fsq (services st'))"
    then obtain rs where rs: "services st' = process_records fsq (services st) rs"
      "unique_services st' = foldl on_service_found (unique_services st) (found_services fsq (services st'))"
      by blast
    have "fst ` set (unique_services st') =
        found_name ` set (found_services fsq (services st))
        \<union> found_name ` set (found_services fsq (services st'))"
      using assms(2) by (simp only: rs(2) foldl_on_service_found_keys names_stored_def)
    moreover have "found_name ` set (found_services fsq (services st))
        \<subseteq> found_name ` set (found_services fsq (services st'))"
      unfolding rs(1) by (rule found_names_mono)
    ultimately show ?thesis by (auto simp: names_stored_def)
  qed
qed

lemma on_messages_names_stored:
  assumes "on_messages fsq st msgs = Some st'" and "names_stored fsq st"
  shows "names_stored fsq st'"
  using assms
proof (induction msgs arbitrary: st)
  case Nil
  then show ?case by simp
next
  case (Cons msg msgs)
  then obtain st1 where 1: "on_message fsq st msg = Some st1" "on_messages fsq st1 msgs = Some st'"
    by (auto split: option.splits)
  from Cons.IH[OF 1(2) on_message_names_stored[OF 1(1) Cons.prems(2)]] show ?case .
qed


text \<open>
  C5, amended: the delivered list holds at most one Device for every name, whatever
  messages arrive, so two PTR records of an instance give one entry. The Device delivered
  for a name is the object that the correlator reported for it first, after the first
  message with which the name is reported: its port and properties are those the entry
  of the correlator had then, its addresses are the array of that report, and later
  messages neither replace it nor add a second one.
\<close>

theorem one_device_per_name:
  assumes earlier: "on_messages fsq initial_session earlier = Some st0"
    and unseen: "n \<notin> set (map found_name (found_services fsq (services st0)))"
    and first: "on_message fsq st0 msg = Some st1"
    and report: "find (\<lambda>d. found_name d = n) (found_services fsq (services st1)) = Some s"
    and later: "on_messages fsq st1 later = Some st2"
  shows "distinct (map dev_name (uniqueServiceArray st2))
     \<and> filter (\<lambda>d. dev_name d = n) (uniqueServiceArray st2) =
         [\<lparr>dev_name = n, dev_addresses = array_contents (services st2) (found_addresses s),
           dev_port = found_port s, dev_properties = found_properties s\<rparr>]"
proof -
  have k0: "keyed_by_name (unique_services st0)"
    using on_messages_keeps[OF earlier] by (simp add: keyed_by_name_def initial_session_def)
  have "names_stored fsq initial_session"
    by (simp add: names_stored_def initial_session_def found_services_def)
  with earlier have "names_stored fsq st0" by (rule on_messages_names_stored)
  with unseen have none: "map_of (unique_services st0) n = None"
    by (simp add: names_stored_def map_of_eq_None_iff)
  from report have sn: "found_name s = n" and sin: "s \<in> set (found_services fsq (services st1))"
    by (auto simp: find_Some_iff)
  have stored: "map_of (unique_services st1) n = Some s"
  proof -
    from on_message_cases[OF first] show ?thesis
    proof
      assume "st1 = st0"
      with sin sn unseen show ?thesis by auto
    next
      assume "\<exists>rs. services st1 = process_records fsq (services st0) rs
       \<and> unique_services st1 = foldl on_service_found (unique_services st0)
                                  (found_services fsq (services st1))"
      then have "unique_services st1 = foldl on_service_found (unique_services st0)
                                  (found_services fsq (services st1))" by blast
      with foldl_on_service_found_first[OF none report] show ?thesis by simp
    qed
  qed
  from on_message_keeps[OF first] k0 have k1: "keyed_by_name (unique_services st1)" by blast
  with on_messages_keeps[OF later] stored
  have k2: "keyed_by_name (unique_services st2)" and m2: "map_of (unique_services st2) n = Some s"
    by blast+
  from delivered_of_keyed[OF k2] m2 sn show ?thesis by (simp add: read_out_def)
qed

theorem one_device_per_name_witness:
  "on_messages ''_smart_ip._tcp.local'' initial_session [truncated_datagram] = Some initial_session
   \<and> ''device-1'' \<notin> set (map found_name (found_services ''_smart_ip._tcp.local'' (services initial_session)))
   \<and> on_message ''_smart_ip._tcp.local'' initial_session ptr_datagram = Some session_after_ptr
   \<and> find (\<lambda>d. found_name d = ''device-1'')
        (found_services ''_smart_ip._tcp.local'' (services session_after_ptr)) = Some first_report
   \<and> on_messages ''_smart_ip._tcp.local'' session_after_ptr [srv_datagram, a_datagram] = Some session_at_deadline
   \<and> filter (\<lambda>d. dev_name d = ''device-1'') (uniqueServiceArray session_at_deadline) =
         [\<lparr>dev_name = ''device-1'', dev_addresses = [], dev_port = None, dev_properties = Map.empty\<rparr>]"
proof -
  have 1: "on_messages ''_smart_ip._tcp.local'' initial_session [truncated_datagram] = Some initial_session"
    by (simp add: on_message_def truncated_datagram_parsed)
  have 2: "''device-1'' \<notin> set (map found_name (found_services ''_smart_ip._tcp.local'' (services initial_session)))"
    by (simp add: initial_session_def found_services_def)
  have 3: "find (\<lambda>d. found_name d = ''device-1'')
        (found_services ''_smart_ip._tcp.local'' (services session_after_ptr)) = Some first_report"
    by (simp add: session_after_ptr_def first_report_def correlator_eval)
  from one_device_per_name[OF 1 2 after_ptr 3 after_srv_a] 1 2 3 after_ptr after_srv_a show ?thesis
    by (simp add: first_report_def array_contents_def)
qed


section \<open>Query encoding\<close>

lemma qname_loop_result:
  "qname_loop parts acc =
     (if \<exists>part \<in> set parts. 255 < js_length part then Inl ERR_OUT_OF_RANGE
      else Inr (acc @ concat (map (\<lambda>part. [[of_nat (js_length part)], Buffer_from part])
                                (filter (\<lambda>part. part \<noteq> []) parts))))"
proof (induction parts arbitrary: acc)
  case Nil
  then show ?case by simp
next
  case (Cons part parts)
  show ?case
  proof (cases "part = []")
    case True
    then show ?thesis by (simp add: Cons.IH)
  next
    case False
    then show ?thesis by (auto simp: Cons.IH writeUInt8_def)
  qed
qed

lemma concat_pairs:
  "concat (concat (map (\<lambda>part. [[of_nat (js_length part)], Buffer_from part]) ps))
     = concat (map encode_label ps)"
  by (induction ps) (simp_all add: encode_label_def)

lemma split_at_first:
  "sep \<notin> set s \<Longrightarrow> split sep (s @ sep # t) = s # split sep t"
  by (induction s) (auto split: list.splits)

lemma split_without: "sep \<notin> set s \<Longrightarrow> split sep s = [s]"
  by (induction s) (auto split: list.splits)

lemma js_length_a: "js_length (replicate n CHR ''a'') = n"
  by (induction n) simp_all

lemma unat_of_char: "unat (of_char c :: byte) = of_char c"
proof -
  have "(of_char c :: byte) = of_nat (of_char c)" by (simp add: of_nat_of_char)
  then have "unat (of_char c :: byte) = (of_char c :: nat) mod 256"
    by (simp add: unat_of_nat)
  then show ?thesis by simp
qed

lemma string_of_bytes_Buffer_from: "string_of_bytes (Buffer_from s) = s"
  by (induction s) (simp_all add: string_of_bytes_def Buffer_from_def unat_of_char)

lemma ascii_byte: "(of_char c :: nat) < 0x80 \<Longrightarrow> (of_char c :: byte) < 0x80"
  by (simp add: word_less_nat_alt unat_of_char)

lemma utf8_decode_low: "\<forall>b \<in> set bs. b < 0x80 \<Longrightarrow> utf8_decode bs = bs"
  by (induction bs) simp_all

lemma utf8_decode_ascii: "ascii s \<Longrightarrow> utf8_decode (Buffer_from s) = Buffer_from s"
  by (rule utf8_decode_low) (auto simp: ascii_def Buffer_from_def ascii_byte)

lemma low_byte_counts_one:
  assumes "(b :: byte) < 0x80"
  shows "b AND 0xC0 \<noteq> 0x80" and "\<not> 0xF0 \<le> b"
proof -
  have "b AND 0xC0 \<le> b" by (rule word_and_le2)
  with assms show "b AND 0xC0 \<noteq> 0x80" by auto
  from assms show "\<not> 0xF0 \<le> b" by (simp add: word_le_nat_alt word_less_nat_alt)
qed

lemma js_length_ascii: "ascii s \<Longrightarrow> js_length s = length s"
  by (induction s) (simp_all add: ascii_def Let_def low_byte_counts_one ascii_byte)

lemma nat_and_le: "(m::nat) AND n \<le> m"
proof -
  have "int (m AND n) = int m AND int n" by (simp add: of_nat_and_eq)
  also have "\<dots> \<le> int m" by (rule AND_upper1) simp
  finally show ?thesis by simp
qed

lemma short_is_no_pointer:
  assumes "len \<le> (63::nat)"
  shows "len AND 0xC0 \<noteq> 0xC0"
proof -
  have "len AND 0xC0 \<le> len" by (rule nat_and_le)
  with assms show ?thesis by simp
qed

lemma join_Cons_Cons: "join sep ((c # p) # ps) = c # join sep (p # ps)"
  by (cases ps) simp_all

lemma split_not_Nil: "split sep s \<noteq> []"
  by (induction s) (auto split: list.splits)

lemma join_split: "join [sep] (split sep s) = s"
proof (induction s)
  case Nil
  then show ?case by simp
next
  case (Cons c cs)
  obtain p ps where sp: "split sep cs = p # ps"
    using split_not_Nil[of sep cs] by (cases "split sep cs") auto
  with Cons show ?case by (simp add: join_Cons_Cons)
qed

lemma toString_middle:
  "toString (pre @ bs @ post) (length pre) (length pre + length bs) = string_of_bytes (utf8_decode bs)"
  by (simp add: toString_def)

lemma read_labels:
  assumes "\<forall>l \<in> set ls. l \<noteq> [] \<and> length l \<le> 63 \<and> ascii l"
  shows "read_name_loop (pre @ concat (map encode_label ls) @ [0] @ post) (length pre) acc j g =
     Some (Inr \<lparr>name = join ''.'' (acc @ ls),
                read_bytes = (if j then g else length pre + length (concat (map encode_label ls)) + 1)\<rparr>)"
  using assms
proof (induction ls arbitrary: pre acc)
  case Nil
  show ?case
    by (subst read_name_loop.simps) (simp add: readUInt8_def nth_append)
next
  case (Cons l ls)
  then have l: "l \<noteq> []" "length l \<le> 63" "ascii l" by simp_all
  let ?rest = "concat (map encode_label ls) @ [0] @ post"
  let ?buf = "pre @ concat (map encode_label (l # ls)) @ [0] @ post"
  have buf: "?buf = pre @ [of_nat (length l)] @ Buffer_from l @ ?rest"
    by (simp add: encode_label_def js_length_ascii l)
  have buf': "?buf = (pre @ encode_label l) @ ?rest"
    by simp
  have len: "unat (of_nat (length l) :: byte) = length l"
    using l(2) by (simp add: unat_of_nat)
  have rd: "readUInt8 ?buf (length pre) = Inr (length l)"
    unfolding buf by (simp add: readUInt8_def nth_append len)
  have ts: "toString ?buf (length pre + 1) (length pre + 1 + length l) = l"
  proof -
    have "?buf = (pre @ [of_nat (length l)]) @ Buffer_from l @ ?rest" unfolding buf by simp
    moreover have "length pre + 1 = length (pre @ [of_nat (length l) :: byte])" by simp
    moreover have "length l = length (Buffer_from l)" by (simp add: Buffer_from_def)
    ultimately have "toString ?buf (length pre + 1) (length pre + 1 + length l)
        = string_of_bytes (utf8_decode (Buffer_from l))"
      by (metis toString_middle)
    then show ?thesis by (simp add: utf8_decode_ascii l string_of_bytes_Buffer_from)
  qed
  have off: "length pre + 1 + length l = length (pre @ encode_label l)"
    by (simp add: encode_label_def Buffer_from_def)
  have "read_name_loop ?buf (length pre) acc j g
      = read_name_loop ?buf (length pre + 1 + length l) (acc @ [l]) j g"
    using l(1) short_is_no_pointer[OF l(2)]
    by (subst read_name_loop.simps) (simp only: rd ts sum.case if_False length_0_conv)
  also have "\<dots> = read_name_loop ((pre @ encode_label l) @ ?rest) (length (pre @ encode_label l)) (acc @ [l]) j g"
    unfolding off buf' ..
  also have "\<dots> = Some (Inr \<lparr>name = join ''.'' ((acc @ [l]) @ ls),
        read_bytes = (if j then g else length (pre @ encode_label l) + length (concat (map encode_label ls)) + 1)\<rparr>)"
    using Cons.prems by (intro Cons.IH) simp
  finally show ?case by (simp add: add.assoc)
qed

lemma split_parts_subset: "part \<in> set (split sep s) \<Longrightarrow> set part \<subseteq> set s"
proof (induction s arbitrary: part)
  case Nil
  then show ?case by simp
next
  case (Cons c cs)
  obtain p ps where sp: "split sep cs = p # ps"
    using split_not_Nil[of sep cs] by (cases "split sep cs") auto
  with Cons show ?case by (fastforce split: if_splits)
qed

text \<open>
  C8, as claimed: a service name with a label of more than 63 bytes makes \<open>build_query\<close>
  fail. For a label of 64 bytes it returns a message, with 64 as the length byte.
\<close>

theorem long_label_counterexample:
  "build_query long_label =
     Inr (header_bytes @ [64] @ Buffer_from long_label @ [5] @ Buffer_from ''local'' @ [0]
          @ question_bytes)"
proof -
  have sp: "split CHR ''.'' (long_label @ ''.local'') = [long_label, ''local'']"
    by (simp add: long_label_def split_at_first)
  have ll: "js_length long_label = 64" by (simp add: long_label_def js_length_a)
  have ne: "long_label \<noteq> []" by (simp add: long_label_def)
  show ?thesis
    by (simp add: build_query_def sp ll ne writeUInt8_def)
qed

lemma build_query_unfolded:
  "build_query sq =
     (if \<exists>part \<in> set (split CHR ''.'' (sq @ ''.local'')). 255 < js_length part
      then Inl (Error ''Error building query: '' ERR_OUT_OF_RANGE)
      else Inr (header_bytes
                @ concat (map encode_label (nonempty_parts (sq @ ''.local'')))
                @ [0] @ question_bytes))"
  by (simp add: build_query_def qname_loop_result concat_pairs nonempty_parts_def)

text \<open>
  C8, amended: \<open>build_query\<close> has no check of the 63 bytes. For a service name of ASCII
  characters it fails, with the error of \<open>writeUInt8\<close> rethrown, exactly when a label of
  the name is longer than 255 bytes; for every other such name, also with labels of 64 to
  255 bytes, it returns the message in which every non-empty label follows a length byte
  that holds its length.
\<close>

theorem build_query_without_guard:
  assumes "ascii sq"
  shows "build_query sq =
     (if \<exists>part \<in> set (split CHR ''.'' (sq @ ''.local'')). 255 < length part
      then Inl (Error ''Error building query: '' ERR_OUT_OF_RANGE)
      else Inr (header_bytes
                @ concat (map (\<lambda>part. of_nat (length part) # Buffer_from part)
                              (nonempty_parts (sq @ ''.local'')))
                @ [0] @ question_bytes))"
proof -
  let ?full = "sq @ ''.local''"
  have af: "ascii ?full" using assms by (auto simp: ascii_def)
  have parts: "\<And>part. part \<in> set (split CHR ''.'' ?full) \<Longrightarrow> js_length part = length part"
  proof -
    fix part assume "part \<in> set (split CHR ''.'' ?full)"
    from split_parts_subset[OF this] af have "ascii part" by (auto simp: ascii_def)
    then show "js_length part = length part" by (rule js_length_ascii)
  qed
  have cond: "(\<exists>part \<in> set (split CHR ''.'' ?full). 255 < js_length part)
      \<longleftrightarrow> (\<exists>part \<in> set (split CHR ''.'' ?full). 255 < length part)"
    using parts by auto
  have enc: "map encode_label (nonempty_parts ?full)
      = map (\<lambda>part. of_nat (length part) # Buffer_from part) (nonempty_parts ?full)"
    using parts by (simp add: nonempty_parts_def encode_label_def)
  show ?thesis
    by (simp only: build_query_unfolded cond enc)
qed

theorem build_query_without_guard_witness:
  "ascii ''_smart_ip._tcp'' \<and> ascii huge_label
   \<and> build_query ''_smart_ip._tcp'' =
     Inr (header_bytes @ [9] @ Buffer_from ''_smart_ip'' @ [4] @ Buffer_from ''_tcp''
          @ [5] @ Buffer_from ''local'' @ [0] @ question_bytes)
   \<and> build_query huge_label = Inl (Error ''Error building query: '' ERR_OUT_OF_RANGE)"
proof -
  have a1: "ascii ''_smart_ip._tcp''" by (simp add: ascii_def)
  have a2: "ascii huge_label" by (simp add: ascii_def huge_label_def)
  from build_query_without_guard[OF a1] build_query_without_guard[OF a2] a1 a2 show ?thesis
    by (simp add: nonempty_parts_def huge_label_def split_at_first)
qed

subsection \<open>Decoding the question name\<close>

text \<open>
  C9. The claim is that \<open>read_name\<close> at offset 12 of the query gives back the name with
  \<open>.local\<close> appended, for every name whose labels are non-empty and at most 63 bytes long.
  \<open>build_query\<close> writes \<open>part.length\<close>, a number of UTF-16 code units, in front of the
  UTF-8 bytes of the label. For the one-letter name U+00E9 the length byte is 1 and two
  bytes follow; \<open>read_name\<close> takes the second of them for the length of a label of 169 bytes
  and throws at the end of the buffer.
\<close>

theorem non_ascii_label_does_not_round_trip:
  "build_query e_acute = Inr e_acute_query
   \<and> read_name e_acute_query 12 = Some (Inl (Error ''Error reading name from buffer: '' ERR_OUT_OF_RANGE))"
proof -
  have "build_query e_acute = Inr e_acute_query"
    by (simp add: build_query_def e_acute_def e_acute_query_def writeUInt8_def Buffer_from_def)
  moreover have "read_name e_acute_query 12 = Some (Inl (Error ''Error reading name from buffer: '' ERR_OUT_OF_RANGE))"
    by (simp add: e_acute_query_def header_bytes_def question_bytes_def writeUInt16BE_def codec_eval)
  ultimately show ?thesis by simp
qed


text \<open>
  For a name of ASCII characters the two lengths agree, and the question name of the query
  decodes to the name with \<open>.local\<close> appended.
\<close>

lemma round_trip_ascii:
  assumes "ascii sq"
    and "\<forall>part \<in> set (split CHR ''.'' (sq @ ''.local'')). part \<noteq> [] \<and> length part \<le> 63"
  shows "build_query sq =
           Inr (header_bytes @ concat (map encode_label (split CHR ''.'' (sq @ ''.local'')))
                @ [0] @ question_bytes)
         \<and> read_name (header_bytes @ concat (map encode_label (split CHR ''.'' (sq @ ''.local'')))
                       @ [0] @ question_bytes) 12 =
             Some (Inr \<lparr>name = sq @ ''.local'',
                        read_bytes = 12 + length (concat (map encode_label
                                       (split CHR ''.'' (sq @ ''.local'')))) + 1\<rparr>)"
proof -
  let ?full = "sq @ ''.local''"
  let ?ls = "split CHR ''.'' ?full"
  have af: "ascii ?full" using assms(1) by (auto simp: ascii_def)
  have parts: "\<forall>l \<in> set ?ls. l \<noteq> [] \<and> length l \<le> 63 \<and> ascii l"
  proof
    fix l assume l: "l \<in> set ?ls"
    from split_parts_subset[OF l] af have "ascii l" by (auto simp: ascii_def)
    with assms(2) l show "l \<noteq> [] \<and> length l \<le> 63 \<and> ascii l" by blast
  qed
  have small: "\<not> (\<exists>part \<in> set ?ls. 255 < js_length part)"
    using parts by (fastforce simp: js_length_ascii)
  have ne: "nonempty_parts ?full = ?ls"
    using parts by (simp add: nonempty_parts_def)
  have bq: "build_query sq = Inr (header_bytes @ concat (map encode_label ?ls) @ [0] @ question_bytes)"
    using small ne by (simp add: build_query_unfolded)
  have h12: "length header_bytes = 12" by (simp add: header_bytes_def writeUInt16BE_def)
  have "read_name_loop (header_bytes @ concat (map encode_label ?ls) @ [0] @ question_bytes)
          (length header_bytes) [] False 12 =
        Some (Inr \<lparr>name = join ''.'' ([] @ ?ls),
                   read_bytes = (if False then 12
                      else length header_bytes + length (concat (map encode_label ?ls)) + 1)\<rparr>)"
    using parts by (rule read_labels)
  then have "read_name (header_bytes @ concat (map encode_label ?ls) @ [0] @ question_bytes) 12 =
      Some (Inr \<lparr>name = ?full, read_bytes = 12 + length (concat (map encode_label ?ls)) + 1\<rparr>)"
    using join_split[of "CHR ''.''" ?full] by (simp add: read_name_def rethrow_def h12)
  with bq show ?thesis by simp
qed


end
